theory Spec2Isabelle
  imports Main "HOL-Library.Sublist" "HOL-Library.AList"
begin

section \<open>Text\<close>

text \<open>
  A Python \<open>str\<close> is modelled as a \<open>string\<close> whose characters are code points below
  256 (ASCII and Latin-1), one \<open>char\<close> per code point, so \<open>length\<close> counts what Python's
  \<open>len\<close> counts. The two library predicates the dashboard uses are written out on that
  range: \<open>str.isalnum\<close> (letters, decimal digits and the Latin-1 superscripts,
  fractions and ordinal indicators) and \<open>str.lower\<close>. The substring test \<open>kw in s\<close> is
  \<open>sublist kw s\<close>.
\<close>

definition py_isalnum :: "char \<Rightarrow> bool" where
  "py_isalnum c =
     (let n = (of_char c :: nat) in
        (48 \<le> n \<and> n \<le> 57) \<or> (65 \<le> n \<and> n \<le> 90) \<or> (97 \<le> n \<and> n \<le> 122) \<or>
        n = 170 \<or> n = 178 \<or> n = 179 \<or> n = 181 \<or> n = 185 \<or> n = 186 \<or>
        (188 \<le> n \<and> n \<le> 190) \<or> (192 \<le> n \<and> n \<le> 214) \<or>
        (216 \<le> n \<and> n \<le> 246) \<or> 248 \<le> n)"

definition py_lower_char :: "char \<Rightarrow> char" where
  "py_lower_char c =
     (let n = (of_char c :: nat) in
        if (65 \<le> n \<and> n \<le> 90) \<or> (192 \<le> n \<and> n \<le> 214) \<or> (216 \<le> n \<and> n \<le> 222)
        then char_of (n + 32) else c)"

definition lower :: "string \<Rightarrow> string" where
  "lower s = map py_lower_char s"

text \<open>\<open>a or b\<close> on strings: the empty string is false.\<close>

definition py_or :: "string \<Rightarrow> string \<Rightarrow> string" where
  "py_or a b = (if a = [] then b else a)"

text \<open>\<open>d.get(key, default)\<close> on a key that may be absent.\<close>

definition get_or :: "'a option \<Rightarrow> 'a \<Rightarrow> 'a" where
  "get_or field dflt = (case field of None \<Rightarrow> dflt | Some v \<Rightarrow> v)"

text \<open>The decimal text of an integer, as an f-string renders it.\<close>

fun nat_digits :: "nat \<Rightarrow> string" where
  "nat_digits n =
     (if n < 10 then [char_of (48 + n)]
      else nat_digits (n div 10) @ [char_of (48 + n mod 10)])"

definition py_str_int :: "int \<Rightarrow> string" where
  "py_str_int i = (if i < 0 then CHR ''-'' # nat_digits (nat (- i)) else nat_digits (nat i))"

section \<open>Filename sanitization\<close>

text \<open>
  \<^verbatim>\<open>return "".join(c if c.isalnum() or c in "-_" else "_" for c in s)[:80]\<close>
\<close>

definition filename_char :: "char \<Rightarrow> bool" where
  "filename_char c = (py_isalnum c \<or> c \<in> set ''-_'')"

definition sanitize_filename :: "string \<Rightarrow> string" where
  "sanitize_filename s = take 80 (map (\<lambda>c. if filename_char c then c else CHR ''_'') s)"

text \<open>
  The reading "strip to alphanumerics, hyphen, underscore; cap length at 80": the
  characters outside the set are dropped. It is compared with \<open>sanitize_filename\<close> below.
\<close>

definition sanitize_by_removal :: "string \<Rightarrow> string" where
  "sanitize_by_removal s = take 80 (filter filename_char s)"

section \<open>Constants and data\<close>

definition MAX_ALERTS :: nat where
  "MAX_ALERTS = 500"

definition DRONE_KEYWORDS :: "string list" where
  "DRONE_KEYWORDS =
     [''dji'', ''parrot'', ''yuneec'', ''autel'', ''skydio'', ''bebop'', ''phantom'',
      ''mavic'', ''inspire'', ''matrice'', ''tello'', ''fpv'', ''drone'', ''uav'',
      ''ardupilot'', ''pixhawk'', ''droneid'']"

definition INTERESTING_SIGNAL :: int where
  "INTERESTING_SIGNAL = - 60"

text \<open>
  A device record is the dictionary Kismet sends. The keys the alert engine reads carry
  the JSON types Kismet gives them (strings, and a signal dictionary with an integer
  last signal); each key may be absent, which is what the \<open>.get(key, default)\<close> calls
  of the source allow for. \<open>other_keys\<close> lists the remaining keys of the dictionary
  (type, channel, frequency, packet counters, timestamps): the engine only copies them
  into saved files, but they decide whether the dictionary is empty.
\<close>

record signal =
  last_signal :: "int option"

record device =
  base_macaddr :: "string option"
  base_name :: "string option"
  base_phyname :: "string option"
  base_manuf :: "string option"
  base_signal :: "signal option"
  other_keys :: "string list"

record alert_entry =
  a_ts :: string
  a_type :: string
  a_severity :: string
  a_title :: string
  a_body :: string
  a_id :: int

record watch_rules =
  drone_alerts :: bool
  btle_alerts :: bool
  strong_signal :: bool

record automation_cfg =
  alert_save_enabled :: bool
  save_device_details :: bool
  save_device_traffic :: bool
  save_watched_only :: bool
  auto_watch_rules :: watch_rules

record watch_entry =
  w_mac :: string
  w_name :: string
  w_phyname :: string
  w_added_at :: string
  w_auto :: bool

record save_record =
  s_ts :: string
  s_file :: string
  s_alert_type :: string
  s_device :: string
  s_ok :: bool
  s_error :: "string option"

text \<open>
  The JSON object written by an alert save: the time, the alert, and the device and
  traffic sections when they are included (each is a projection of the device record,
  kept here as the record it is taken from).
\<close>

record payload =
  p_saved_at :: string
  p_alert :: alert_entry
  p_device :: "device option"
  p_traffic :: "device option"

text \<open>
  The wall clock is an input: \<open>clk k\<close> is what the \<open>k\<close>-th reading of the clock returns,
  in the three renderings the source asks for (\<open>datetime.now().isoformat()\<close>,
  \<open>datetime.now().strftime("%Y%m%d_%H%M%S")\<close> and \<open>int(time.time() * 1000)\<close>). The
  state counts the readings made so far.
\<close>

record reading =
  iso :: string
  stamp :: string
  millis :: int

type_synonym clock = "nat \<Rightarrow> reading"

text \<open>
  The in-memory state of the dashboard, as far as the alert engine uses it. The
  watchlist dictionary is an association list in insertion order. \<open>spawned\<close> records
  the save threads \<open>push_alert\<close> has started, with their arguments, and \<open>written\<close> the
  files an alert save has written.
\<close>

record state =
  alerts :: "alert_entry list"
  automations :: automation_cfg
  watched_devices :: "(string \<times> watch_entry) list"
  alert_saves :: "save_record list"
  ticks :: nat
  spawned :: "(alert_entry \<times> device) list"
  written :: "(string \<times> payload) list"

text \<open>The arguments of a \<open>push_alert\<close> call: type, severity, title and body.\<close>

type_synonym candidate = "string \<times> string \<times> string \<times> string"

definition core :: "alert_entry \<Rightarrow> candidate" where
  "core a = (a_type a, a_severity a, a_title a, a_body a)"

text \<open>A device dictionary is true in a condition when it has at least one key.\<close>

definition device_nonempty :: "device \<Rightarrow> bool" where
  "device_nonempty dev =
     (\<not> (base_macaddr dev = None \<and> base_name dev = None \<and> base_phyname dev = None \<and>
         base_manuf dev = None \<and> base_signal dev = None \<and> other_keys dev = []))"

definition py_truthy :: "device option \<Rightarrow> bool" where
  "py_truthy device = (case device of None \<Rightarrow> False | Some dev \<Rightarrow> device_nonempty dev)"

section \<open>Watch policy\<close>

text \<open>
  \<open>_auto_watch_device(atype, device)\<close>: returns at once when no device is attached,
  when the device has no address or when the address is already a key of the
  watchlist; otherwise it adds an entry when one of the enabled rules applies. The
  entry's time is the one clock reading the function makes.
\<close>

definition should_watch :: "watch_rules \<Rightarrow> string \<Rightarrow> string \<Rightarrow> bool" where
  "should_watch rules atype phy =
     ((drone_alerts rules \<and> atype = ''drone'') \<or>
      (btle_alerts rules \<and> atype \<in> set [''signal'', ''kismet''] \<and>
         phy \<in> set [''BTLE'', ''Bluetooth'']) \<or>
      (strong_signal rules \<and> atype = ''signal''))"

definition auto_watch_device :: "clock \<Rightarrow> string \<Rightarrow> device option \<Rightarrow> state \<Rightarrow> state" where
  "auto_watch_device clk atype device st =
     (case device of
        None \<Rightarrow> st
      | Some dev \<Rightarrow>
          let rules = auto_watch_rules (automations st);
              mac = get_or (base_macaddr dev) []
          in if mac = [] \<or> mac \<in> set (map fst (watched_devices st)) then st
             else
               let phy = get_or (base_phyname dev) []
               in if should_watch rules atype phy then
                    let name = py_or (get_or (base_name dev) []) mac
                    in st\<lparr>watched_devices :=
                            AList.update mac
                              \<lparr>w_mac = mac, w_name = name, w_phyname = phy,
                               w_added_at = iso (clk (ticks st)), w_auto = True\<rparr>
                              (watched_devices st),
                          ticks := Suc (ticks st)\<rparr>
                  else st)"

text \<open>Repeated evaluation of the policy, and the number of entries under one address.\<close>

primrec watch_all :: "clock \<Rightarrow> (string \<times> device option) list \<Rightarrow> state \<Rightarrow> state" where
  "watch_all clk [] st = st"
| "watch_all clk (c # cs) st = watch_all clk cs (auto_watch_device clk (fst c) (snd c) st)"

definition entries_for :: "string \<Rightarrow> state \<Rightarrow> nat" where
  "entries_for mac st = length (filter (\<lambda>p. fst p = mac) (watched_devices st))"

section \<open>Alert store\<close>

text \<open>
  \<open>push_alert(atype, severity, title, body, device=None)\<close>: under the lock, the entry
  is built (two clock readings: the timestamp, then the identifier), inserted at the
  head, and the last entry is popped when the list has grown past \<open>MAX_ALERTS\<close>. Then
  the watch policy runs, and a save thread is started when a device is attached. The
  model is of one thread of execution: the locked block is one step, and a started
  save thread is recorded, not run.
\<close>

definition make_entry ::
  "clock \<Rightarrow> string \<Rightarrow> string \<Rightarrow> string \<Rightarrow> string \<Rightarrow> state \<Rightarrow> alert_entry" where
  "make_entry clk atype severity title body st =
     \<lparr>a_ts = iso (clk (ticks st)), a_type = atype, a_severity = severity,
      a_title = title, a_body = body, a_id = millis (clk (Suc (ticks st)))\<rparr>"

definition push_alert ::
  "clock \<Rightarrow> string \<Rightarrow> string \<Rightarrow> string \<Rightarrow> string \<Rightarrow> device option \<Rightarrow> state \<Rightarrow> state" where
  "push_alert clk atype severity title body device st =
     (let alert_entry = make_entry clk atype severity title body st;
          inserted = alert_entry # alerts st;
          stored = (if length inserted > MAX_ALERTS then butlast inserted else inserted);
          st1 = auto_watch_device clk atype device
                  (st\<lparr>alerts := stored, ticks := Suc (Suc (ticks st))\<rparr>)
      in case device of
           None \<Rightarrow> st1
         | Some dev \<Rightarrow> st1\<lparr>spawned := spawned st1 @ [(alert_entry, dev)]\<rparr>)"

text \<open>A sequence of appends: the calls are made one after the other.\<close>

type_synonym push_call = "candidate \<times> device option"

definition push_call :: "clock \<Rightarrow> push_call \<Rightarrow> state \<Rightarrow> state" where
  "push_call clk c st =
     (case c of ((atype, severity, title, body), device) \<Rightarrow>
        push_alert clk atype severity title body device st)"

primrec push_all :: "clock \<Rightarrow> push_call list \<Rightarrow> state \<Rightarrow> state" where
  "push_all clk [] st = st"
| "push_all clk (c # cs) st = push_all clk cs (push_call clk c st)"

section \<open>Alert-save automation\<close>

text \<open>
  \<open>_save_alert_device(alert_entry, device=None)\<close>. The file system is an input:
  \<open>mk\<close> is the outcome of \<open>SAVE_DIR.mkdir(parents=True, exist_ok=True)\<close> and \<open>wr\<close> the
  outcome of opening and writing the file; \<open>None\<close> is success and \<open>Some e\<close> an exception
  with text \<open>e\<close>. \<open>out_path\<close> renders \<open>SAVE_DIR / filename\<close> as text. The result is
  \<open>Inr\<close> the new state when the function returns and \<open>Inl e\<close> when an exception leaves
  it (the state is then as it was). The alert entry always has its \<open>type\<close> key, so the
  default of \<open>alert_entry.get("type", "alert")\<close> is never taken. What a failed write
  leaves on disk is not modelled.
\<close>

definition save_dev_name :: "device option \<Rightarrow> string" where
  "save_dev_name device =
     (case device of
        None \<Rightarrow> []
      | Some dev \<Rightarrow>
          if device_nonempty dev
          then py_or (get_or (base_name dev) []) (get_or (base_macaddr dev) ''unknown'')
          else [])"

definition alert_filename :: "string \<Rightarrow> string \<Rightarrow> string \<Rightarrow> string" where
  "alert_filename alert_type dev_name ts_str =
     ''alert_'' @ sanitize_filename alert_type @ ''_'' @ sanitize_filename dev_name @
     ''_'' @ ts_str @ ''.json''"

definition save_payload ::
  "automation_cfg \<Rightarrow> string \<Rightarrow> alert_entry \<Rightarrow> device option \<Rightarrow> payload" where
  "save_payload auto ts_str alert_entry device =
     \<lparr>p_saved_at = ts_str, p_alert = alert_entry,
      p_device = (if save_device_details auto \<and> py_truthy device then device else None),
      p_traffic = (if save_device_traffic auto \<and> py_truthy device then device else None)\<rparr>"

text \<open>
  The body of the \<open>try\<close> block: the write, then the record of the success at the head
  of the save log, which is cut to its first 100 entries.
\<close>

definition write_and_record ::
  "string option \<Rightarrow> string \<Rightarrow> payload \<Rightarrow> save_record \<Rightarrow> state \<Rightarrow> string + state" where
  "write_and_record wr out_file pl rec st =
     (case wr of
        Some e \<Rightarrow> Inl e
      | None \<Rightarrow>
          Inr (st\<lparr>written := written st @ [(out_file, pl)],
                  alert_saves := take 100 (rec # alert_saves st)\<rparr>))"

text \<open>
  The watchlist filter \<open>if auto["save_watched_only"] and device: ... if mac not in
  state["watched_devices"]: return\<close>: it applies to a device dictionary that is attached
  and not empty.
\<close>

definition not_watched :: "device option \<Rightarrow> state \<Rightarrow> bool" where
  "not_watched device st =
     (case device of
        None \<Rightarrow> False
      | Some dev \<Rightarrow>
          device_nonempty dev \<and>
          get_or (base_macaddr dev) [] \<notin> set (map fst (watched_devices st)))"

definition save_alert_device ::
  "clock \<Rightarrow> (string \<Rightarrow> string) \<Rightarrow> string option \<Rightarrow> string option \<Rightarrow>
   alert_entry \<Rightarrow> device option \<Rightarrow> state \<Rightarrow> string + state" where
  "save_alert_device clk out_path mk wr alert_entry device st =
     (let auto = automations st in
      if \<not> alert_save_enabled auto then Inr st
      else if \<not> save_device_details auto \<and> \<not> save_device_traffic auto then Inr st
      else if save_watched_only auto \<and> not_watched device st then Inr st
      else
        (case mk of
           Some e \<Rightarrow> Inl e
         | None \<Rightarrow>
             let ts_str = stamp (clk (ticks st));
                 st1 = st\<lparr>ticks := Suc (ticks st)\<rparr>;
                 dev_name = save_dev_name device;
                 alert_type = a_type alert_entry;
                 filename = alert_filename alert_type dev_name ts_str;
                 out_file = out_path filename;
                 pl = save_payload auto ts_str alert_entry device;
                 rec = \<lparr>s_ts = ts_str, s_file = out_file, s_alert_type = alert_type,
                        s_device = dev_name, s_ok = True, s_error = None\<rparr>
             in case write_and_record wr out_file pl rec st1 of
                  Inr st2 \<Rightarrow> Inr st2
                | Inl e \<Rightarrow>
                    Inr (st1\<lparr>alert_saves :=
                               rec\<lparr>s_ok := False, s_error := Some e\<rparr> # alert_saves st1\<rparr>)))"

text \<open>The record an attempt leaves in the save log, given the outcome of the write.\<close>

definition save_entry ::
  "clock \<Rightarrow> (string \<Rightarrow> string) \<Rightarrow> string option \<Rightarrow> alert_entry \<Rightarrow> device option \<Rightarrow>
   state \<Rightarrow> save_record" where
  "save_entry clk out_path wr alert_entry device st =
     \<lparr>s_ts = stamp (clk (ticks st)),
      s_file = out_path (alert_filename (a_type alert_entry) (save_dev_name device)
                 (stamp (clk (ticks st)))),
      s_alert_type = a_type alert_entry, s_device = save_dev_name device,
      s_ok = (wr = None), s_error = wr\<rparr>"

section \<open>Detectors and ingestion\<close>

text \<open>
  The locals of the loop body of \<open>analyze_devices\<close>. With the field types of the device
  record no step of the loop body raises, so the handler \<open>except Exception: pass\<close> around
  it is never entered; a record whose fields carry other JSON types is outside this
  model.
\<close>

definition dev_ssid_map :: "device \<Rightarrow> string" where
  "dev_ssid_map dev = get_or (base_name dev) []"

definition dev_mac :: "device \<Rightarrow> string" where
  "dev_mac dev = get_or (base_macaddr dev) []"

definition dev_phy :: "device \<Rightarrow> string" where
  "dev_phy dev = get_or (base_phyname dev) []"

definition dev_manuf :: "device \<Rightarrow> string" where
  "dev_manuf dev = get_or (base_manuf dev) []"

definition dev_last_signal :: "device \<Rightarrow> int" where
  "dev_last_signal dev = get_or (last_signal (get_or (base_signal dev) \<lparr>last_signal = None\<rparr>)) (- 100)"

definition combined :: "device \<Rightarrow> string" where
  "combined dev = lower (dev_ssid_map dev @ '' '' @ dev_manuf dev)"

text \<open>
  The reading "concatenates the device's name and manufacturer": the two joined with
  nothing between them. It is compared with \<open>combined\<close> below.
\<close>

definition combined_plain :: "device \<Rightarrow> string" where
  "combined_plain dev = lower (dev_ssid_map dev @ dev_manuf dev)"

text \<open>
  The pictographs that open the titles lie outside the 8-bit \<open>char\<close>; they are written
  as their UTF-8 bytes. Titles are never measured, compared or sanitized.
\<close>

definition icon_drone :: string where
  "icon_drone = [CHR 0xF0, CHR 0x9F, CHR 0x9A, CHR 0x81]"

definition icon_signal :: string where
  "icon_signal = [CHR 0xF0, CHR 0x9F, CHR 0x93, CHR 0xB6]"

text \<open>The keyword loop: the first keyword found in the text ends the loop.\<close>

primrec first_keyword :: "string list \<Rightarrow> string \<Rightarrow> string option" where
  "first_keyword [] s = None"
| "first_keyword (kw # kws) s = (if sublist kw s then Some kw else first_keyword kws s)"

text \<open>
  The three rules, each giving the arguments of the \<open>push_alert\<close> call it makes, if it
  makes one.
\<close>

definition keyword_alert :: "device \<Rightarrow> candidate option" where
  "keyword_alert dev =
     (case first_keyword DRONE_KEYWORDS (combined dev) of
        None \<Rightarrow> None
      | Some kw \<Rightarrow>
          Some (''drone'', ''critical'',
                icon_drone @ '' Drone detected: '' @ py_or (dev_ssid_map dev) (dev_mac dev),
                ''MAC: '' @ dev_mac dev @ '' | PHY: '' @ dev_phy dev @ '' | Manuf: '' @
                dev_manuf dev @ '' | Signal: '' @ py_str_int (dev_last_signal dev) @
                '' dBm | Keyword matched: '' @ [CHR 0x27] @ kw @ [CHR 0x27]))"

definition uav_alert :: "device \<Rightarrow> candidate option" where
  "uav_alert dev =
     (if dev_phy dev = ''UAV''
      then Some (''drone'', ''critical'',
                 icon_drone @ '' UAV PHY device: '' @ py_or (dev_ssid_map dev) (dev_mac dev),
                 ''MAC: '' @ dev_mac dev @ '' | Manuf: '' @ dev_manuf dev @ '' | Signal: '' @
                 py_str_int (dev_last_signal dev) @ '' dBm'')
      else None)"

definition signal_alert :: "device \<Rightarrow> candidate option" where
  "signal_alert dev =
     (if dev_last_signal dev > INTERESTING_SIGNAL
      then Some (''signal'', ''warning'',
                 icon_signal @ '' Strong signal: '' @ py_or (dev_ssid_map dev) (dev_mac dev),
                 ''MAC: '' @ dev_mac dev @ '' | Signal: '' @ py_str_int (dev_last_signal dev) @
                 '' dBm | PHY: '' @ dev_phy dev)
      else None)"

definition emit :: "clock \<Rightarrow> candidate option \<Rightarrow> device \<Rightarrow> state \<Rightarrow> state" where
  "emit clk r dev st = (case r of None \<Rightarrow> st | Some c \<Rightarrow> push_call clk (c, Some dev) st)"

definition analyze_device :: "clock \<Rightarrow> device \<Rightarrow> state \<Rightarrow> state" where
  "analyze_device clk dev st =
     (let st1 = emit clk (keyword_alert dev) dev st;
          st2 = emit clk (uav_alert dev) dev st1;
          st3 = emit clk (signal_alert dev) dev st2
      in st3)"

text \<open>The calls one device gives rise to, in the order they are made.\<close>

definition opt_list :: "'a option \<Rightarrow> 'a list" where
  "opt_list r = (case r of None \<Rightarrow> [] | Some c \<Rightarrow> [c])"

definition detect :: "device \<Rightarrow> candidate list" where
  "detect dev = opt_list (keyword_alert dev) @ opt_list (uav_alert dev) @ opt_list (signal_alert dev)"

text \<open>What a fetch hands over: a JSON array of records, or some other JSON value.\<close>

datatype 'a json_batch = JList "'a list" | JOther

primrec analyze_loop :: "clock \<Rightarrow> device list \<Rightarrow> state \<Rightarrow> state" where
  "analyze_loop clk [] st = st"
| "analyze_loop clk (dev # devs) st = analyze_loop clk devs (analyze_device clk dev st)"

definition analyze_devices :: "clock \<Rightarrow> device json_batch \<Rightarrow> state \<Rightarrow> state" where
  "analyze_devices clk devices st =
     (case devices of JOther \<Rightarrow> st | JList devs \<Rightarrow> analyze_loop clk devs st)"

section \<open>Mirroring the upstream alert feed\<close>

text \<open>
  \<open>poll_kismet_alerts()\<close>: the fetch either raises or returns a JSON value. Of a list,
  the last 20 records (\<open>data[-20:]\<close>) are mirrored; a raised fetch becomes an alert of
  type \<open>error\<close>.
\<close>

record kismet_alert =
  ka_severity :: "int option"
  ka_header :: "string option"
  ka_text :: "string option"

datatype 'a fetch = Raised string | Returned 'a

definition mirror_call :: "kismet_alert \<Rightarrow> push_call" where
  "mirror_call a =
     ((''kismet'',
       (if get_or (ka_severity a) 5 < 10 then ''warning'' else ''info''),
       get_or (ka_header a) ''Kismet Alert'',
       get_or (ka_text a) []), None)"

definition poll_kismet_alerts :: "clock \<Rightarrow> kismet_alert json_batch fetch \<Rightarrow> state \<Rightarrow> state" where
  "poll_kismet_alerts clk resp st =
     (case resp of
        Raised e \<Rightarrow> push_alert clk ''error'' ''error'' ''Kismet alert poll failed'' e None st
      | Returned JOther \<Rightarrow> st
      | Returned (JList data) \<Rightarrow>
          push_all clk (map mirror_call (drop (length data - 20) data)) st)"

section \<open>Invariant of the identifiers\<close>

text \<open>
  The identifiers in the store do not grow from the head (the newest entry) to the
  tail, and none is later than the clock's current reading.
\<close>

definition ids_ordered :: "clock \<Rightarrow> state \<Rightarrow> bool" where
  "ids_ordered clk st =
     (sorted_wrt (\<ge>) (map a_id (alerts st)) \<and>
      list_all (\<lambda>a. a_id a \<le> millis (clk (ticks st))) (alerts st))"

section \<open>Example data\<close>

text \<open>
  The state the program starts with, one of the demonstration devices of the source,
  a clock whose readings all fall in one millisecond, and a clock that advances by one
  millisecond per reading.
\<close>

definition initial_state :: state where
  "initial_state =
     \<lparr>alerts = [],
      automations =
        \<lparr>alert_save_enabled = True, save_device_details = True, save_device_traffic = True,
         save_watched_only = False,
         auto_watch_rules = \<lparr>drone_alerts = True, btle_alerts = True, strong_signal = False\<rparr>\<rparr>,
      watched_devices = [], alert_saves = [], ticks = 0, spawned = [], written = []\<rparr>"

definition mavic :: device where
  "mavic =
     \<lparr>base_macaddr = Some ''60:60:1F:AA:BB:CC'', base_name = Some ''DJI-Mavic-3-Pro'',
      base_phyname = Some ''IEEE802.11'', base_manuf = Some ''DJI Technology'',
      base_signal = Some \<lparr>last_signal = Some (- 38)\<rparr>,
      other_keys = [''kismet_device_base_type'', ''kismet_device_base_channel'',
                    ''kismet_device_base_frequency'', ''kismet_device_base_packets_total'']\<rparr>"

definition frozen_clock :: clock where
  "frozen_clock k =
     \<lparr>iso = ''2026-02-24T14:00:00.000100'', stamp = ''20260224_140000'',
      millis = 1771941600000\<rparr>"

definition running_clock :: clock where
  "running_clock k =
     \<lparr>iso = ''2026-02-24T14:00:00'', stamp = ''20260224_140000'',
      millis = 1771941600000 + int k\<rparr>"

text \<open>
  An access point whose name ends and whose manufacturer begins with parts of a keyword.
\<close>

definition guest_ap :: device where
  "guest_ap =
     \<lparr>base_macaddr = Some ''3C:7A:8A:10:20:30'', base_name = Some ''Guest-UA'',
      base_phyname = Some ''IEEE802.11'', base_manuf = Some ''Vantiva'',
      base_signal = Some \<lparr>last_signal = Some (- 71)\<rparr>,
      other_keys = [''kismet_device_base_type'', ''kismet_device_base_channel'']\<rparr>"

text \<open>The default save directory, and an alert raised for the demonstration device.\<close>

definition save_dir_path :: "string \<Rightarrow> string" where
  "save_dir_path filename = ''kismet_saves/'' @ filename"

definition mavic_alert :: alert_entry where
  "mavic_alert =
     make_entry frozen_clock ''drone'' ''critical'' ''Drone detected: DJI-Mavic-3-Pro''
       ''MAC: 60:60:1F:AA:BB:CC'' initial_state"

section \<open>Properties of the filename sanitization\<close>

lemma filename_char_underscore: "filename_char (CHR ''_'')"
  by (simp add: filename_char_def)

lemma sanitize_filename_length: "length (sanitize_filename s) = min 80 (length s)"
  by (simp add: sanitize_filename_def min.commute)

lemma sanitize_filename_nth:
  assumes "i < length (sanitize_filename s)"
  shows "sanitize_filename s ! i = (if filename_char (s ! i) then s ! i else CHR ''_'')"
  using assms by (simp add: sanitize_filename_def)

lemma sanitize_filename_chars:
  assumes "c \<in> set (sanitize_filename s)"
  shows "filename_char c"
proof -
  from assms have "c \<in> set (map (\<lambda>c. if filename_char c then c else CHR ''_'') s)"
    unfolding sanitize_filename_def by (rule in_set_takeD)
  then have "\<exists>d. c = (if filename_char d then d else CHR ''_'')"
    by (auto simp: image_iff)
  then obtain d where "c = (if filename_char d then d else CHR ''_'')" ..
  then show ?thesis
    by (cases "filename_char d") (simp_all add: filename_char_underscore)
qed

text \<open>
  C9 (as amended). The sanitization keeps the first 80 characters of its input and
  replaces, position by position, every character that is not alphanumeric, \<open>-\<close> or
  \<open>_\<close> by an underscore. So the result holds only alphanumerics, \<open>-\<close> and \<open>_\<close>, its
  length is the input's capped at 80, and no character is removed before the cap.
\<close>

theorem sanitize_filename_replaces:
  "(\<forall>c \<in> set (sanitize_filename s). py_isalnum c \<or> c = CHR ''-'' \<or> c = CHR ''_'') \<and>
   length (sanitize_filename s) \<le> 80 \<and>
   length (sanitize_filename s) = min 80 (length s) \<and>
   (\<forall>i < length (sanitize_filename s).
      sanitize_filename s ! i = (if filename_char (s ! i) then s ! i else CHR ''_''))"
proof -
  have "\<forall>c \<in> set (sanitize_filename s). py_isalnum c \<or> c = CHR ''-'' \<or> c = CHR ''_''"
    using sanitize_filename_chars [of _ s] by (auto simp: filename_char_def)
  moreover have "length (sanitize_filename s) \<le> 80"
    by (simp add: sanitize_filename_length)
  ultimately show ?thesis
    by (simp add: sanitize_filename_length sanitize_filename_nth)
qed

theorem sanitize_filename_replaces_witness:
  "sanitize_filename ''DJI Mavic/3'' = ''DJI_Mavic_3'' \<and>
   length (sanitize_filename ''DJI Mavic/3'') = 11 \<and>
   sanitize_filename ''DJI Mavic/3'' ! 3 = CHR ''_''"
proof -
  have v: "sanitize_filename ''DJI Mavic/3'' = ''DJI_Mavic_3''"
    by code_simp
  have "length (sanitize_filename ''DJI Mavic/3'') = min 80 (length ''DJI Mavic/3'')"
    using sanitize_filename_replaces [of "''DJI Mavic/3''"] by blast
  then show ?thesis
    using v by simp
qed

text \<open>
  C9 (as stated) fails: a space is not removed, it becomes an underscore, so the
  result differs from the input with the offending characters dropped.
\<close>

theorem sanitize_filename_removal_counterexample:
  "sanitize_filename ''a b'' = ''a_b'' \<and> sanitize_by_removal ''a b'' = ''ab'' \<and>
   sanitize_filename ''a b'' \<noteq> sanitize_by_removal ''a b''"
  by code_simp

section \<open>Properties of the alert store\<close>

lemma auto_watch_device_alerts [simp]:
  "alerts (auto_watch_device clk atype device st) = alerts st"
  by (simp add: auto_watch_device_def Let_def split: option.splits)

lemma auto_watch_device_automations [simp]:
  "automations (auto_watch_device clk atype device st) = automations st"
  by (simp add: auto_watch_device_def Let_def split: option.splits)

lemma auto_watch_device_ticks:
  "ticks st \<le> ticks (auto_watch_device clk atype device st)"
  by (simp add: auto_watch_device_def Let_def split: option.splits)

lemma push_alert_alerts:
  assumes "length (alerts st) \<le> MAX_ALERTS"
  shows "alerts (push_alert clk atype severity title body device st) =
         take MAX_ALERTS (make_entry clk atype severity title body st # alerts st)"
proof (cases "length (alerts st) = MAX_ALERTS")
  case True
  then have "butlast (make_entry clk atype severity title body st # alerts st) =
             take MAX_ALERTS (make_entry clk atype severity title body st # alerts st)"
    by (simp add: butlast_conv_take)
  with True show ?thesis
    by (simp add: push_alert_def Let_def split: option.splits)
next
  case False
  with assms have "length (alerts st) < MAX_ALERTS" by simp
  then show ?thesis
    by (simp add: push_alert_def Let_def split: option.splits)
qed

lemma push_alert_length:
  assumes "length (alerts st) \<le> MAX_ALERTS"
  shows "length (alerts (push_alert clk atype severity title body device st)) \<le> MAX_ALERTS"
  by (simp add: push_alert_alerts [OF assms])

lemma push_call_length:
  assumes "length (alerts st) \<le> MAX_ALERTS"
  shows "length (alerts (push_call clk c st)) \<le> MAX_ALERTS"
  using assms by (simp add: push_call_def push_alert_length split: prod.splits)

lemma core_make_entry [simp]:
  "core (make_entry clk atype severity title body st) = (atype, severity, title, body)"
  by (simp add: core_def make_entry_def)

lemma push_call_cores:
  assumes "length (alerts st) \<le> MAX_ALERTS"
  shows "map core (alerts (push_call clk c st)) = take MAX_ALERTS (fst c # map core (alerts st))"
proof -
  obtain atype severity title body device where c: "c = ((atype, severity, title, body), device)"
    by (metis prod.exhaust)
  have "map core (take MAX_ALERTS (make_entry clk atype severity title body st # alerts st)) =
        take MAX_ALERTS (map core (make_entry clk atype severity title body st # alerts st))"
    by (simp only: take_map)
  then show ?thesis
    using assms by (simp add: c push_call_def push_alert_alerts)
qed

lemma push_all_length:
  assumes "length (alerts st) \<le> MAX_ALERTS"
  shows "length (alerts (push_all clk cs st)) \<le> MAX_ALERTS"
  using assms by (induction cs arbitrary: st) (simp_all add: push_call_length)

lemma take_append_take:
  "take n (ys @ take n xs) = take n (ys @ xs)"
  by (simp add: min_def)

lemma push_all_cores:
  assumes "length (alerts st) \<le> MAX_ALERTS"
  shows "map core (alerts (push_all clk cs st)) =
         take MAX_ALERTS (rev (map fst cs) @ map core (alerts st))"
  using assms
proof (induction cs arbitrary: st)
  case Nil
  then show ?case by simp
next
  case (Cons c cs)
  have "map core (alerts (push_all clk (c # cs) st)) =
        take MAX_ALERTS (rev (map fst cs) @ map core (alerts (push_call clk c st)))"
    using Cons.IH [of "push_call clk c st"] Cons.prems by (simp add: push_call_length)
  also have "\<dots> = take MAX_ALERTS (rev (map fst cs) @ take MAX_ALERTS (fst c # map core (alerts st)))"
    using Cons.prems by (simp add: push_call_cores)
  also have "\<dots> = take MAX_ALERTS (rev (map fst cs) @ fst c # map core (alerts st))"
    by (rule take_append_take)
  finally show ?case by simp
qed

lemma push_alert_alerts_raw:
  "alerts (push_alert clk atype severity title body device st) =
     (if length (alerts st) \<ge> MAX_ALERTS
      then butlast (make_entry clk atype severity title body st # alerts st)
      else make_entry clk atype severity title body st # alerts st)"
  by (auto simp: push_alert_def Let_def split: option.splits)

lemma push_alert_ticks:
  "Suc (Suc (ticks st)) \<le> ticks (push_alert clk atype severity title body device st)"
proof -
  define st1 where
    "st1 = st\<lparr>alerts :=
                 (if length (make_entry clk atype severity title body st # alerts st) > MAX_ALERTS
                  then butlast (make_entry clk atype severity title body st # alerts st)
                  else make_entry clk atype severity title body st # alerts st),
               ticks := Suc (Suc (ticks st))\<rparr>"
  have "ticks (push_alert clk atype severity title body device st) =
        ticks (auto_watch_device clk atype device st1)"
    unfolding push_alert_def Let_def st1_def by (cases device) simp_all
  moreover have "ticks st1 \<le> ticks (auto_watch_device clk atype device st1)"
    by (rule auto_watch_device_ticks)
  moreover have "ticks st1 = Suc (Suc (ticks st))"
    by (simp add: st1_def)
  ultimately show ?thesis
    by simp
qed

lemma push_alert_ids_ordered:
  assumes mono: "\<forall>i j. i \<le> j \<longrightarrow> millis (clk i) \<le> millis (clk j)"
    and inv: "ids_ordered clk st"
  shows "ids_ordered clk (push_alert clk atype severity title body device st)"
proof -
  let ?e = "make_entry clk atype severity title body st"
  let ?st' = "push_alert clk atype severity title body device st"
  have new_id: "a_id ?e = millis (clk (Suc (ticks st)))"
    by (simp add: make_entry_def)
  have old: "\<forall>a \<in> set (alerts st). a_id a \<le> millis (clk (ticks st))"
    using inv by (simp add: ids_ordered_def list_all_iff)
  have step: "millis (clk (ticks st)) \<le> millis (clk (Suc (ticks st)))"
    using mono by simp
  have later: "millis (clk (Suc (ticks st))) \<le> millis (clk (ticks ?st'))"
    using mono push_alert_ticks [of st clk atype severity title body device] by simp
  have sorted_ins: "sorted_wrt (\<ge>) (map a_id (?e # alerts st))"
    using inv old step by (auto simp: ids_ordered_def new_id)
  have bound_ins: "\<forall>a \<in> set (?e # alerts st). a_id a \<le> millis (clk (ticks ?st'))"
    using old step later by (auto simp: new_id)
  have sub: "set (alerts ?st') \<subseteq> set (?e # alerts st)"
    by (auto simp: push_alert_alerts_raw dest: in_set_butlastD)
  have "sorted_wrt (\<ge>) (map a_id (butlast (?e # alerts st)))"
    using sorted_ins by (simp only: butlast_conv_take take_map [symmetric] sorted_wrt_take)
  with sorted_ins have "sorted_wrt (\<ge>) (map a_id (alerts ?st'))"
    by (simp add: push_alert_alerts_raw)
  moreover have "\<forall>a \<in> set (alerts ?st'). a_id a \<le> millis (clk (ticks ?st'))"
    using sub bound_ins by blast
  ultimately show ?thesis
    by (simp add: ids_ordered_def list_all_iff)
qed

lemma push_all_ids_ordered:
  assumes "\<forall>i j. i \<le> j \<longrightarrow> millis (clk i) \<le> millis (clk j)"
    and "ids_ordered clk st"
  shows "ids_ordered clk (push_all clk cs st)"
  using assms(2)
proof (induction cs arbitrary: st)
  case Nil
  then show ?case by simp
next
  case (Cons c cs)
  obtain atype severity title body device where c: "c = ((atype, severity, title, body), device)"
    by (metis prod.exhaust)
  have "ids_ordered clk (push_call clk c st)"
    using push_alert_ids_ordered [OF assms(1) Cons.prems] by (simp add: c push_call_def)
  then show ?case
    using Cons.IH by simp
qed

text \<open>
  C7 (as amended). An identifier is the clock's millisecond reading at the append. When
  the clock does not run backwards, the identifiers of the events appended to an empty
  store never decrease in append order: read from the head, the newest entry first,
  they never increase. Two events appended within one millisecond share an identifier.
\<close>

theorem alert_ids_nondecreasing:
  assumes "\<forall>i j. i \<le> j \<longrightarrow> millis (clk i) \<le> millis (clk j)"
    and "alerts st = []"
  shows "sorted_wrt (\<ge>) (map a_id (alerts (push_all clk cs st)))"
proof -
  have "ids_ordered clk st"
    using assms(2) by (simp add: ids_ordered_def)
  then have "ids_ordered clk (push_all clk cs st)"
    by (rule push_all_ids_ordered [OF assms(1)])
  then show ?thesis
    by (simp add: ids_ordered_def)
qed

lemma running_clock_mono: "\<forall>i j. i \<le> j \<longrightarrow> millis (running_clock i) \<le> millis (running_clock j)"
  by (simp add: running_clock_def)

theorem alert_ids_nondecreasing_witness:
  "sorted_wrt (\<ge>) (map a_id (alerts (push_all running_clock
      [((''drone'', ''critical'', ''t1'', ''b1''), None),
       ((''signal'', ''warning'', ''t2'', ''b2''), None)] initial_state))) \<and>
   map a_id (alerts (push_all running_clock
      [((''drone'', ''critical'', ''t1'', ''b1''), None),
       ((''signal'', ''warning'', ''t2'', ''b2''), None)] initial_state)) =
   [1771941600003, 1771941600001]"
proof -
  have e: "alerts initial_state = []"
    by (simp add: initial_state_def)
  have v: "map a_id (alerts (push_all running_clock
      [((''drone'', ''critical'', ''t1'', ''b1''), None),
       ((''signal'', ''warning'', ''t2'', ''b2''), None)] initial_state)) =
   [1771941600003, 1771941600001]"
    by code_simp
  show ?thesis
    using alert_ids_nondecreasing [OF running_clock_mono e] v by blast
qed

text \<open>
  C7 (as stated) fails: one device that trips the keyword rule and the signal rule
  gives two events within the same millisecond, and the later event's identifier equals
  the earlier's instead of exceeding it.
\<close>

theorem alert_ids_strict_counterexample:
  "map a_type (alerts (analyze_devices frozen_clock (JList [mavic]) initial_state)) =
     [''signal'', ''drone''] \<and>
   map a_id (alerts (analyze_devices frozen_clock (JList [mavic]) initial_state)) =
     [1771941600000, 1771941600000] \<and>
   \<not> a_id (alerts (analyze_devices frozen_clock (JList [mavic]) initial_state) ! 1) <
     a_id (alerts (analyze_devices frozen_clock (JList [mavic]) initial_state) ! 0)"
  by code_simp

text \<open>
  C1. A store that holds at most 500 events holds at most 500 after any sequence of
  appends, and so after each append of the sequence. One append puts the new event at
  the head and keeps the first 500: at capacity it drops the last, oldest entry. The
  events of a sequence of appends stand in the store newest first, ahead of what was
  there, cut to 500.
\<close>

theorem alert_store_bounded:
  assumes "length (alerts st) \<le> MAX_ALERTS"
  shows "MAX_ALERTS = 500 \<and>
         (\<forall>n. length (alerts (push_all clk (take n cs) st)) \<le> MAX_ALERTS) \<and>
         alerts (push_alert clk atype severity title body device st) =
           take MAX_ALERTS (make_entry clk atype severity title body st # alerts st) \<and>
         (length (alerts st) = MAX_ALERTS \<longrightarrow>
            alerts (push_alert clk atype severity title body device st) =
              make_entry clk atype severity title body st # butlast (alerts st)) \<and>
         map core (alerts (push_all clk cs st)) =
           take MAX_ALERTS (rev (map fst cs) @ map core (alerts st))"
proof -
  have step: "alerts (push_alert clk atype severity title body device st) =
           take MAX_ALERTS (make_entry clk atype severity title body st # alerts st)"
    by (rule push_alert_alerts [OF assms])
  have full: "alerts (push_alert clk atype severity title body device st) =
              make_entry clk atype severity title body st # butlast (alerts st)"
    if "length (alerts st) = MAX_ALERTS"
  proof -
    from that have ne: "alerts st \<noteq> []"
      by (auto simp: MAX_ALERTS_def)
    from that show ?thesis
      by (simp add: push_alert_alerts_raw ne)
  qed
  show ?thesis
    using step full push_all_length [OF assms] push_all_cores [OF assms]
    by (simp add: MAX_ALERTS_def)
qed

theorem alert_store_bounded_witness:
  "length (alerts (push_alert frozen_clock ''drone'' ''critical'' ''t'' ''b'' None
      (initial_state\<lparr>alerts := replicate 500 (make_entry running_clock ''save'' ''info'' ''s'' ''f'' initial_state)\<rparr>))) = 500 \<and>
   alerts (push_alert frozen_clock ''drone'' ''critical'' ''t'' ''b'' None
      (initial_state\<lparr>alerts := replicate 500 (make_entry running_clock ''save'' ''info'' ''s'' ''f'' initial_state)\<rparr>)) =
   make_entry frozen_clock ''drone'' ''critical'' ''t'' ''b'' initial_state #
     replicate 499 (make_entry running_clock ''save'' ''info'' ''s'' ''f'' initial_state)"
proof -
  let ?old = "make_entry running_clock ''save'' ''info'' ''s'' ''f'' initial_state"
  let ?st = "initial_state\<lparr>alerts := replicate 500 ?old\<rparr>"
  have len: "length (alerts ?st) \<le> MAX_ALERTS"
    by (simp add: MAX_ALERTS_def)
  have cap: "length (alerts ?st) = MAX_ALERTS"
    by (simp add: MAX_ALERTS_def)
  have e: "make_entry frozen_clock ''drone'' ''critical'' ''t'' ''b'' ?st =
           make_entry frozen_clock ''drone'' ''critical'' ''t'' ''b'' initial_state"
    by (simp add: make_entry_def)
  have "alerts (push_alert frozen_clock ''drone'' ''critical'' ''t'' ''b'' None ?st) =
        make_entry frozen_clock ''drone'' ''critical'' ''t'' ''b'' ?st # butlast (alerts ?st)"
    using alert_store_bounded [OF len, of frozen_clock "[]" "''drone''" "''critical''" "''t''" "''b''" None] cap
    by blast
  then show ?thesis
    by (simp add: e butlast_conv_take)
qed

section \<open>Properties of the mirror-poll\<close>

lemma mirror_call_core:
  "fst (mirror_call a) =
     (''kismet'', (if get_or (ka_severity a) 5 < 10 then ''warning'' else ''info''),
      get_or (ka_header a) ''Kismet Alert'', get_or (ka_text a) [])"
  by (simp add: mirror_call_def)

text \<open>
  C8 (as amended). A mirror-poll whose fetch returns a list appends one event of type
  \<open>kismet\<close> for each of the last 20 records of the list (for every record when the list
  has at most 20), in the list's order, so that the last record is the newest event.
  The severity is \<open>warning\<close> when the record's severity ordinal (5 when the record has
  none) is below 10 and \<open>info\<close> otherwise.
\<close>

theorem mirror_poll_last_twenty:
  assumes "length (alerts st) \<le> MAX_ALERTS"
  shows "map core (alerts (poll_kismet_alerts clk (Returned (JList data)) st)) =
           take MAX_ALERTS
             (rev (map (\<lambda>a. fst (mirror_call a)) (drop (length data - 20) data)) @
              map core (alerts st)) \<and>
         (length data \<le> 20 \<longrightarrow>
            map core (alerts (poll_kismet_alerts clk (Returned (JList data)) st)) =
              take MAX_ALERTS (rev (map (\<lambda>a. fst (mirror_call a)) data) @ map core (alerts st))) \<and>
         (\<forall>a. fst (mirror_call a) =
            (''kismet'', (if get_or (ka_severity a) 5 < 10 then ''warning'' else ''info''),
             get_or (ka_header a) ''Kismet Alert'', get_or (ka_text a) []))"
proof -
  have "map core (alerts (poll_kismet_alerts clk (Returned (JList data)) st)) =
        take MAX_ALERTS
          (rev (map fst (map mirror_call (drop (length data - 20) data))) @ map core (alerts st))"
    using push_all_cores [OF assms] by (simp add: poll_kismet_alerts_def)
  then show ?thesis
    by (simp add: mirror_call_core comp_def)
qed

theorem mirror_poll_last_twenty_witness:
  "map core (alerts (poll_kismet_alerts frozen_clock
      (Returned (JList [\<lparr>ka_severity = Some 5, ka_header = Some ''DEAUTHFLOOD'', ka_text = Some ''flood''\<rparr>,
                        \<lparr>ka_severity = Some 15, ka_header = None, ka_text = None\<rparr>,
                        \<lparr>ka_severity = None, ka_header = Some ''NEWSSID'', ka_text = Some ''seen''\<rparr>]))
      initial_state)) =
   [(''kismet'', ''warning'', ''NEWSSID'', ''seen''),
    (''kismet'', ''info'', ''Kismet Alert'', ''''),
    (''kismet'', ''warning'', ''DEAUTHFLOOD'', ''flood'')]"
proof -
  have len: "length (alerts initial_state) \<le> MAX_ALERTS"
    by (simp add: initial_state_def)
  have e: "alerts initial_state = []"
    by (simp add: initial_state_def)
  show ?thesis
    using mirror_poll_last_twenty [OF len, of frozen_clock
      "[\<lparr>ka_severity = Some 5, ka_header = Some ''DEAUTHFLOOD'', ka_text = Some ''flood''\<rparr>,
        \<lparr>ka_severity = Some 15, ka_header = None, ka_text = None\<rparr>,
        \<lparr>ka_severity = None, ka_header = Some ''NEWSSID'', ka_text = Some ''seen''\<rparr>]"]
    by (simp add: e mirror_call_def get_or_def MAX_ALERTS_def)
qed

text \<open>
  C8 (as stated) fails: of a batch of 21 records only 20 are mirrored, and the first
  record of the batch gives no event.
\<close>

theorem mirror_poll_every_record_counterexample:
  "length (alerts (poll_kismet_alerts frozen_clock
      (Returned (JList (\<lparr>ka_severity = Some 5, ka_header = Some ''first'', ka_text = Some ''''\<rparr> #
                        replicate 20 \<lparr>ka_severity = Some 5, ka_header = Some ''other'', ka_text = Some ''''\<rparr>)))
      initial_state)) = 20 \<and>
   ''first'' \<notin> set (map a_title (alerts (poll_kismet_alerts frozen_clock
      (Returned (JList (\<lparr>ka_severity = Some 5, ka_header = Some ''first'', ka_text = Some ''''\<rparr> #
                        replicate 20 \<lparr>ka_severity = Some 5, ka_header = Some ''other'', ka_text = Some ''''\<rparr>)))
      initial_state)))"
  by code_simp

section \<open>Properties of the watch policy\<close>

lemma update_absent:
  "k \<notin> set (map fst al) \<Longrightarrow> AList.update k v al = al @ [(k, v)]"
  by (induction al) auto

lemma count_key:
  "distinct (map fst al) \<Longrightarrow>
   length (filter (\<lambda>p. fst p = k) al) = (if k \<in> set (map fst al) then 1 else 0)"
proof (induction al)
  case Nil
  then show ?case by simp
next
  case (Cons p al)
  then show ?case by (auto simp: image_iff)
qed

lemma entries_for_distinct:
  "distinct (map fst (watched_devices st)) \<Longrightarrow>
   entries_for mac st = (if mac \<in> set (map fst (watched_devices st)) then 1 else 0)"
  unfolding entries_for_def by (rule count_key)

lemma auto_watch_device_no_device: "auto_watch_device clk atype None st = st"
  by (simp add: auto_watch_device_def)

lemma auto_watch_device_watched:
  "dev_mac dev \<in> set (map fst (watched_devices st)) \<Longrightarrow>
   auto_watch_device clk atype (Some dev) st = st"
  by (simp add: auto_watch_device_def dev_mac_def Let_def)

lemma auto_watch_device_idle:
  "\<not> should_watch (auto_watch_rules (automations st)) atype (dev_phy dev) \<Longrightarrow>
   auto_watch_device clk atype (Some dev) st = st"
  by (simp add: auto_watch_device_def dev_phy_def Let_def)

lemma auto_watch_device_adds:
  assumes "dev_mac dev \<noteq> []" and "dev_mac dev \<notin> set (map fst (watched_devices st))"
    and "should_watch (auto_watch_rules (automations st)) atype (dev_phy dev)"
  shows "watched_devices (auto_watch_device clk atype (Some dev) st) =
         watched_devices st @
           [(dev_mac dev,
             \<lparr>w_mac = dev_mac dev, w_name = py_or (dev_ssid_map dev) (dev_mac dev),
              w_phyname = dev_phy dev, w_added_at = iso (clk (ticks st)), w_auto = True\<rparr>)]"
  using assms
  by (simp add: auto_watch_device_def dev_mac_def dev_phy_def dev_ssid_map_def Let_def update_absent)

lemma auto_watch_device_distinct:
  assumes "distinct (map fst (watched_devices st))"
  shows "distinct (map fst (watched_devices (auto_watch_device clk atype device st)))"
  using assms
  by (auto simp: auto_watch_device_def Let_def distinct_update split: option.splits)

lemma watch_all_distinct:
  assumes "distinct (map fst (watched_devices st))"
  shows "distinct (map fst (watched_devices (watch_all clk calls st)))"
  using assms by (induction calls arbitrary: st) (simp_all add: auto_watch_device_distinct)

lemma watch_all_automations [simp]:
  "automations (watch_all clk calls st) = automations st"
  by (induction calls arbitrary: st) simp_all

lemma watch_all_watched:
  assumes "\<forall>c \<in> set calls. \<exists>dev. snd c = Some dev \<and> dev_mac dev = mac"
    and "mac \<in> set (map fst (watched_devices st))"
  shows "watch_all clk calls st = st"
  using assms
proof (induction calls)
  case Nil
  then show ?case by simp
next
  case (Cons c calls)
  then obtain dev where "snd c = Some dev" "dev_mac dev = mac"
    by auto
  with Cons.prems(2) have "auto_watch_device clk (fst c) (snd c) st = st"
    by (simp add: auto_watch_device_watched)
  with Cons show ?case by simp
qed

lemma watch_all_fires:
  assumes "\<forall>c \<in> set calls. \<exists>dev. snd c = Some dev \<and> dev_mac dev = mac"
    and "mac \<noteq> []"
    and "\<exists>c \<in> set calls. \<exists>dev. snd c = Some dev \<and>
           should_watch (auto_watch_rules (automations st)) (fst c) (dev_phy dev)"
  shows "mac \<in> set (map fst (watched_devices (watch_all clk calls st)))"
  using assms
proof (induction calls)
  case Nil
  then show ?case by simp
next
  case (Cons c calls)
  from Cons.prems(1) obtain dev where dev: "snd c = Some dev" "dev_mac dev = mac"
    by auto
  have rest: "\<forall>c \<in> set calls. \<exists>dev. snd c = Some dev \<and> dev_mac dev = mac"
    using Cons.prems(1) by simp
  show ?case
  proof (cases "mac \<in> set (map fst (watched_devices st))")
    case True
    then have "watch_all clk (c # calls) st = st"
      by (rule watch_all_watched [OF Cons.prems(1)])
    with True show ?thesis by simp
  next
    case False
    show ?thesis
    proof (cases "should_watch (auto_watch_rules (automations st)) (fst c) (dev_phy dev)")
      case True
      let ?st1 = "auto_watch_device clk (fst c) (snd c) st"
      have "mac \<in> set (map fst (watched_devices ?st1))"
        using auto_watch_device_adds [of dev st "fst c" clk] dev Cons.prems(2) False True
        by simp
      then have "watch_all clk calls ?st1 = ?st1" "mac \<in> set (map fst (watched_devices ?st1))"
        by (simp_all add: watch_all_watched [OF rest])
      then show ?thesis by simp
    next
      case idle: False
      then have same: "auto_watch_device clk (fst c) (snd c) st = st"
        by (simp add: dev auto_watch_device_idle)
      from Cons.prems(3) idle dev
      have "\<exists>c \<in> set calls. \<exists>dev. snd c = Some dev \<and>
              should_watch (auto_watch_rules (automations st)) (fst c) (dev_phy dev)"
        by auto
      with Cons.IH rest Cons.prems(2) same show ?thesis by simp
    qed
  qed
qed

lemma watch_all_idle:
  assumes "\<forall>c \<in> set calls. \<exists>dev. snd c = Some dev \<and> dev_mac dev = mac \<and>
             \<not> should_watch (auto_watch_rules (automations st)) (fst c) (dev_phy dev)"
  shows "watch_all clk calls st = st"
  using assms
proof (induction calls)
  case Nil
  then show ?case by simp
next
  case (Cons c calls)
  then obtain dev where "snd c = Some dev"
    "\<not> should_watch (auto_watch_rules (automations st)) (fst c) (dev_phy dev)"
    by auto
  then have "auto_watch_device clk (fst c) (snd c) st = st"
    by (simp add: auto_watch_device_idle)
  with Cons show ?case by simp
qed

text \<open>
  C5 (as amended). The watchlist has one entry per address at most. For invocations of
  the watch policy that all carry a device with the same address: the policy does
  nothing when no device is attached and nothing when the address is already on the
  watchlist; whatever the number of invocations, the watchlist ends with at most one
  entry for the address; it ends with exactly one, and running the invocations again
  changes nothing, when the address is not empty and one of the invocations meets an
  enabled rule; it ends with none, the state untouched, when the address was not on
  the watchlist and no invocation meets an enabled rule.
\<close>

theorem watch_policy_idempotent:
  assumes "distinct (map fst (watched_devices st))"
    and "\<forall>c \<in> set calls. \<exists>dev. snd c = Some dev \<and> dev_mac dev = mac"
  shows "auto_watch_device clk atype None st = st \<and>
         (mac \<in> set (map fst (watched_devices st)) \<longrightarrow>
            watch_all clk calls st = st \<and> entries_for mac st = 1) \<and>
         entries_for mac (watch_all clk calls st) \<le> 1 \<and>
         (mac \<noteq> [] \<and>
          (\<exists>c \<in> set calls. \<exists>dev. snd c = Some dev \<and>
             should_watch (auto_watch_rules (automations st)) (fst c) (dev_phy dev)) \<longrightarrow>
          entries_for mac (watch_all clk calls st) = 1 \<and>
          watch_all clk calls (watch_all clk calls st) = watch_all clk calls st) \<and>
         (mac \<notin> set (map fst (watched_devices st)) \<and>
          (\<forall>c \<in> set calls. \<forall>dev. snd c = Some dev \<longrightarrow>
             \<not> should_watch (auto_watch_rules (automations st)) (fst c) (dev_phy dev)) \<longrightarrow>
          watch_all clk calls st = st \<and> entries_for mac (watch_all clk calls st) = 0)"
proof -
  have d: "distinct (map fst (watched_devices (watch_all clk calls st)))"
    by (rule watch_all_distinct [OF assms(1)])
  have one: "entries_for mac (watch_all clk calls st) \<le> 1"
    by (simp add: entries_for_distinct [OF d])
  have fired: "entries_for mac (watch_all clk calls st) = 1 \<and>
          watch_all clk calls (watch_all clk calls st) = watch_all clk calls st"
    if "mac \<noteq> []"
      and "\<exists>c \<in> set calls. \<exists>dev. snd c = Some dev \<and>
             should_watch (auto_watch_rules (automations st)) (fst c) (dev_phy dev)"
  proof -
    have "mac \<in> set (map fst (watched_devices (watch_all clk calls st)))"
      by (rule watch_all_fires [OF assms(2) that])
    then show ?thesis
      by (simp add: entries_for_distinct [OF d] watch_all_watched [OF assms(2)])
  qed
  have idle: "watch_all clk calls st = st \<and> entries_for mac (watch_all clk calls st) = 0"
    if "mac \<notin> set (map fst (watched_devices st))"
      and "\<forall>c \<in> set calls. \<forall>dev. snd c = Some dev \<longrightarrow>
             \<not> should_watch (auto_watch_rules (automations st)) (fst c) (dev_phy dev)"
  proof -
    have "\<forall>c \<in> set calls. \<exists>dev. snd c = Some dev \<and> dev_mac dev = mac \<and>
             \<not> should_watch (auto_watch_rules (automations st)) (fst c) (dev_phy dev)"
      using assms(2) that(2) by blast
    then have "watch_all clk calls st = st"
      by (rule watch_all_idle)
    then show ?thesis
      using that(1) by (simp add: entries_for_distinct [OF assms(1)])
  qed
  have present: "watch_all clk calls st = st \<and> entries_for mac st = 1"
    if "mac \<in> set (map fst (watched_devices st))"
    using that by (simp add: watch_all_watched [OF assms(2)] entries_for_distinct [OF assms(1)])
  have none: "auto_watch_device clk atype None st = st"
    by (rule auto_watch_device_no_device)
  from present have present':
    "mac \<in> set (map fst (watched_devices st)) \<longrightarrow>
       watch_all clk calls st = st \<and> entries_for mac st = 1"
    by (rule impI)
  from fired have fired':
    "mac \<noteq> [] \<and>
     (\<exists>c \<in> set calls. \<exists>dev. snd c = Some dev \<and>
        should_watch (auto_watch_rules (automations st)) (fst c) (dev_phy dev)) \<longrightarrow>
     entries_for mac (watch_all clk calls st) = 1 \<and>
     watch_all clk calls (watch_all clk calls st) = watch_all clk calls st"
    by (intro impI) (elim conjE)
  from idle have idle':
    "mac \<notin> set (map fst (watched_devices st)) \<and>
     (\<forall>c \<in> set calls. \<forall>dev. snd c = Some dev \<longrightarrow>
        \<not> should_watch (auto_watch_rules (automations st)) (fst c) (dev_phy dev)) \<longrightarrow>
     watch_all clk calls st = st \<and> entries_for mac (watch_all clk calls st) = 0"
    by (intro impI) (elim conjE)
  show ?thesis
    by (rule conjI [OF none conjI [OF present' conjI [OF one conjI [OF fired' idle']]]])
qed

theorem watch_policy_idempotent_witness:
  "entries_for ''60:60:1F:AA:BB:CC''
     (watch_all running_clock
        [(''drone'', Some mavic), (''signal'', Some mavic), (''drone'', Some mavic)]
        initial_state) = 1 \<and>
   map fst (watched_devices
     (watch_all running_clock
        [(''drone'', Some mavic), (''signal'', Some mavic), (''drone'', Some mavic)]
        initial_state)) = [''60:60:1F:AA:BB:CC'']"
proof -
  let ?calls = "[(''drone'', Some mavic), (''signal'', Some mavic), (''drone'', Some mavic)]"
  have d: "distinct (map fst (watched_devices initial_state))"
    by (simp add: initial_state_def)
  have same: "\<forall>c \<in> set ?calls. \<exists>dev. snd c = Some dev \<and> dev_mac dev = ''60:60:1F:AA:BB:CC''"
    by (simp add: dev_mac_def mavic_def get_or_def)
  have fires: "\<exists>c \<in> set ?calls. \<exists>dev. snd c = Some dev \<and>
      should_watch (auto_watch_rules (automations initial_state)) (fst c) (dev_phy dev)"
    by (simp add: should_watch_def initial_state_def)
  have ne: "''60:60:1F:AA:BB:CC'' \<noteq> []"
    by simp
  have "entries_for ''60:60:1F:AA:BB:CC'' (watch_all running_clock ?calls initial_state) = 1"
    using watch_policy_idempotent [OF d same, of running_clock "''drone''"] fires ne by blast
  moreover have "map fst (watched_devices (watch_all running_clock ?calls initial_state)) =
      [''60:60:1F:AA:BB:CC'']"
    by code_simp
  ultimately show ?thesis
    by simp
qed

text \<open>
  C5 (as stated) fails: with the rules the program starts with, a strong-signal alert
  for a Wi-Fi device meets no enabled rule, and two invocations leave no entry for the
  device, not one.
\<close>

theorem watch_policy_exactly_one_counterexample:
  "watch_all running_clock [(''signal'', Some mavic), (''signal'', Some mavic)] initial_state =
     initial_state \<and>
   entries_for ''60:60:1F:AA:BB:CC''
     (watch_all running_clock [(''signal'', Some mavic), (''signal'', Some mavic)] initial_state) = 0"
  by code_simp

section \<open>Properties of the alert-save automation\<close>

lemma save_gate_enabled:
  "\<not> alert_save_enabled (automations st) \<Longrightarrow>
   save_alert_device clk out_path mk wr alert_entry device st = Inr st"
  by (simp add: save_alert_device_def Let_def)

lemma save_gate_sections:
  "\<not> save_device_details (automations st) \<Longrightarrow> \<not> save_device_traffic (automations st) \<Longrightarrow>
   save_alert_device clk out_path mk wr alert_entry device st = Inr st"
  by (simp add: save_alert_device_def Let_def)

lemma save_gate_watched:
  "save_watched_only (automations st) \<Longrightarrow> not_watched device st \<Longrightarrow>
   save_alert_device clk out_path mk wr alert_entry device st = Inr st"
  by (simp add: save_alert_device_def Let_def)

lemma not_watched_Some:
  "not_watched (Some dev) st =
     (device_nonempty dev \<and> dev_mac dev \<notin> set (map fst (watched_devices st)))"
  by (simp add: not_watched_def dev_mac_def)

lemma save_passes:
  assumes "alert_save_enabled (automations st)"
    and "save_device_details (automations st) \<or> save_device_traffic (automations st)"
    and "\<not> (save_watched_only (automations st) \<and> not_watched device st)"
  shows "save_alert_device clk out_path None wr alert_entry device st =
         Inr (case wr of
                None \<Rightarrow>
                  st\<lparr>ticks := Suc (ticks st),
                     written := written st @
                       [(out_path (alert_filename (a_type alert_entry) (save_dev_name device)
                           (stamp (clk (ticks st)))),
                         save_payload (automations st) (stamp (clk (ticks st))) alert_entry device)],
                     alert_saves :=
                       take 100 (save_entry clk out_path wr alert_entry device st # alert_saves st)\<rparr>
              | Some e \<Rightarrow>
                  st\<lparr>ticks := Suc (ticks st),
                     alert_saves :=
                       save_entry clk out_path wr alert_entry device st # alert_saves st\<rparr>)"
  using assms
  by (cases wr) (auto simp: save_alert_device_def write_and_record_def save_entry_def Let_def)

lemma save_raises:
  assumes "alert_save_enabled (automations st)"
    and "save_device_details (automations st) \<or> save_device_traffic (automations st)"
    and "\<not> (save_watched_only (automations st) \<and> not_watched device st)"
  shows "save_alert_device clk out_path (Some e) wr alert_entry device st = Inl e"
  using assms by (auto simp: save_alert_device_def Let_def)

text \<open>
  C2 (as amended). The alert save returns without saving and without a record when the
  master flag is off; when both inclusion flags are off; and when the watched-only
  restriction is on and the attached, non-empty device record has an address that is
  not on the watchlist. When all gates pass and the save directory can be created, the
  save returns normally, whether the write succeeds or fails, and puts exactly one
  record at the head of the save log: with the success flag after a successful write
  (the log is then cut to 100), with the flag off and the error text after a failed
  write. Nothing else of the alert state changes.
\<close>

theorem alert_save_gated:
  "(\<not> alert_save_enabled (automations st) \<longrightarrow>
      save_alert_device clk out_path mk wr alert_entry device st = Inr st) \<and>
   (\<not> save_device_details (automations st) \<and> \<not> save_device_traffic (automations st) \<longrightarrow>
      save_alert_device clk out_path mk wr alert_entry device st = Inr st) \<and>
   (save_watched_only (automations st) \<and> device_nonempty dev \<and>
    dev_mac dev \<notin> set (map fst (watched_devices st)) \<longrightarrow>
      save_alert_device clk out_path mk wr alert_entry (Some dev) st = Inr st) \<and>
   (alert_save_enabled (automations st) \<and>
    (save_device_details (automations st) \<or> save_device_traffic (automations st)) \<and>
    \<not> (save_watched_only (automations st) \<and> not_watched device st) \<longrightarrow>
      (\<exists>st'. save_alert_device clk out_path None wr alert_entry device st = Inr st' \<and>
         alert_saves st' =
           (case wr of
              None \<Rightarrow> take 100 (save_entry clk out_path wr alert_entry device st # alert_saves st)
            | Some e \<Rightarrow> save_entry clk out_path wr alert_entry device st # alert_saves st) \<and>
         alerts st' = alerts st \<and> watched_devices st' = watched_devices st \<and>
         automations st' = automations st) \<and>
      s_ok (save_entry clk out_path wr alert_entry device st) = (wr = None) \<and>
      s_error (save_entry clk out_path wr alert_entry device st) = wr \<and>
      s_alert_type (save_entry clk out_path wr alert_entry device st) = a_type alert_entry \<and>
      s_device (save_entry clk out_path wr alert_entry device st) = save_dev_name device)"
proof (intro conjI impI)
  assume "\<not> alert_save_enabled (automations st)"
  then show "save_alert_device clk out_path mk wr alert_entry device st = Inr st"
    by (rule save_gate_enabled)
next
  assume "\<not> save_device_details (automations st) \<and> \<not> save_device_traffic (automations st)"
  then show "save_alert_device clk out_path mk wr alert_entry device st = Inr st"
    by (simp add: save_gate_sections)
next
  assume "save_watched_only (automations st) \<and> device_nonempty dev \<and>
    dev_mac dev \<notin> set (map fst (watched_devices st))"
  then show "save_alert_device clk out_path mk wr alert_entry (Some dev) st = Inr st"
    by (simp add: save_gate_watched not_watched_Some)
next
  assume pass: "alert_save_enabled (automations st) \<and>
    (save_device_details (automations st) \<or> save_device_traffic (automations st)) \<and>
    \<not> (save_watched_only (automations st) \<and> not_watched device st)"
  then have eq: "save_alert_device clk out_path None wr alert_entry device st =
         Inr (case wr of
                None \<Rightarrow>
                  st\<lparr>ticks := Suc (ticks st),
                     written := written st @
                       [(out_path (alert_filename (a_type alert_entry) (save_dev_name device)
                           (stamp (clk (ticks st)))),
                         save_payload (automations st) (stamp (clk (ticks st))) alert_entry device)],
                     alert_saves :=
                       take 100 (save_entry clk out_path wr alert_entry device st # alert_saves st)\<rparr>
              | Some e \<Rightarrow>
                  st\<lparr>ticks := Suc (ticks st),
                     alert_saves :=
                       save_entry clk out_path wr alert_entry device st # alert_saves st\<rparr>)"
    by (intro save_passes) simp_all
  show "\<exists>st'. save_alert_device clk out_path None wr alert_entry device st = Inr st' \<and>
         alert_saves st' =
           (case wr of
              None \<Rightarrow> take 100 (save_entry clk out_path wr alert_entry device st # alert_saves st)
            | Some e \<Rightarrow> save_entry clk out_path wr alert_entry device st # alert_saves st) \<and>
         alerts st' = alerts st \<and> watched_devices st' = watched_devices st \<and>
         automations st' = automations st"
    unfolding eq by (cases wr) simp_all
qed (simp_all add: save_entry_def)

theorem alert_save_gated_witness:
  "(\<exists>st'. save_alert_device frozen_clock save_dir_path None (Some ''No space left on device'')
            mavic_alert (Some mavic) initial_state = Inr st' \<and>
          alert_saves st' =
            [save_entry frozen_clock save_dir_path (Some ''No space left on device'')
               mavic_alert (Some mavic) initial_state]) \<and>
   s_ok (save_entry frozen_clock save_dir_path (Some ''No space left on device'')
           mavic_alert (Some mavic) initial_state) = False \<and>
   s_file (save_entry frozen_clock save_dir_path (Some ''No space left on device'')
           mavic_alert (Some mavic) initial_state) =
     ''kismet_saves/alert_drone_DJI-Mavic-3-Pro_20260224_140000.json''"
proof -
  have pass: "alert_save_enabled (automations initial_state) \<and>
    (save_device_details (automations initial_state) \<or>
     save_device_traffic (automations initial_state)) \<and>
    \<not> (save_watched_only (automations initial_state) \<and> not_watched (Some mavic) initial_state)"
    by (simp add: initial_state_def)
  have e: "alert_saves initial_state = []"
    by (simp add: initial_state_def)
  have f: "s_file (save_entry frozen_clock save_dir_path (Some ''No space left on device'')
           mavic_alert (Some mavic) initial_state) =
     ''kismet_saves/alert_drone_DJI-Mavic-3-Pro_20260224_140000.json''"
    by code_simp
  have "(\<exists>st'. save_alert_device frozen_clock save_dir_path None (Some ''No space left on device'')
            mavic_alert (Some mavic) initial_state = Inr st' \<and>
          alert_saves st' =
            [save_entry frozen_clock save_dir_path (Some ''No space left on device'')
               mavic_alert (Some mavic) initial_state])"
    using alert_save_gated [of initial_state frozen_clock save_dir_path None
        "Some ''No space left on device''" mavic_alert "Some mavic" mavic] pass e
    by auto
  then show ?thesis
    using f by (simp add: save_entry_def)
qed

text \<open>
  C2 (as stated) fails: the directory is created outside the guarded block, so when
  all gates pass and creating the directory raises, the exception leaves the function
  and no record is made.
\<close>

theorem alert_save_directory_counterexample:
  "alert_save_enabled (automations initial_state) \<and>
   save_device_details (automations initial_state) \<and>
   \<not> save_watched_only (automations initial_state) \<and>
   save_alert_device frozen_clock save_dir_path (Some ''Permission denied'') None
     mavic_alert (Some mavic) initial_state = Inl ''Permission denied''"
  by (simp add: save_raises initial_state_def)

lemma save_success_trims:
  assumes "alert_save_enabled (automations st)"
    and "save_device_details (automations st) \<or> save_device_traffic (automations st)"
    and "\<not> (save_watched_only (automations st) \<and> not_watched device st)"
  shows "\<exists>st'. save_alert_device clk out_path None None alert_entry device st = Inr st' \<and>
           length (alert_saves st') \<le> 100"
  by (simp add: save_passes [OF assms])

lemma save_failure_grows:
  assumes "alert_save_enabled (automations st)"
    and "save_device_details (automations st) \<or> save_device_traffic (automations st)"
    and "\<not> (save_watched_only (automations st) \<and> not_watched device st)"
  shows "\<exists>st'. save_alert_device clk out_path None (Some e) alert_entry device st = Inr st' \<and>
           length (alert_saves st') = Suc (length (alert_saves st))"
  by (simp add: save_passes [OF assms])

text \<open>
  C6. The save log is cut to 100 entries after a successful write only. With 100
  records in the log, an attempt whose write fails leaves 101.
\<close>

theorem save_log_failure_untrimmed:
  "\<exists>st'. save_alert_device frozen_clock save_dir_path None (Some ''No space left on device'')
           mavic_alert (Some mavic)
           (initial_state\<lparr>alert_saves :=
              replicate 100 (save_entry frozen_clock save_dir_path None mavic_alert (Some mavic)
                               initial_state)\<rparr>) = Inr st' \<and>
         length (alert_saves st') = 101"
proof -
  let ?full = "initial_state\<lparr>alert_saves :=
              replicate 100 (save_entry frozen_clock save_dir_path None mavic_alert (Some mavic)
                               initial_state)\<rparr>"
  have "\<exists>st'. save_alert_device frozen_clock save_dir_path None (Some ''No space left on device'')
           mavic_alert (Some mavic) ?full = Inr st' \<and>
         length (alert_saves st') = Suc (length (alert_saves ?full))"
    by (rule save_failure_grows) (simp_all add: initial_state_def)
  then show ?thesis
    by simp
qed

section \<open>Properties of the detectors\<close>

lemma first_keyword_None:
  "first_keyword kws s = None \<longleftrightarrow> (\<forall>kw \<in> set kws. \<not> sublist kw s)"
  by (induction kws) auto

lemma first_keyword_nth:
  assumes "i < length kws" and "sublist (kws ! i) s" and "\<forall>j < i. \<not> sublist (kws ! j) s"
  shows "first_keyword kws s = Some (kws ! i)"
  using assms
proof (induction kws arbitrary: i)
  case Nil
  then show ?case by simp
next
  case (Cons kw kws)
  show ?case
  proof (cases i)
    case 0
    with Cons.prems show ?thesis by simp
  next
    case (Suc k)
    with Cons.prems have "\<not> sublist kw s"
      by auto
    moreover have "first_keyword kws s = Some (kws ! k)"
    proof (rule Cons.IH)
      show "k < length kws" using Cons.prems(1) Suc by simp
      show "sublist (kws ! k) s" using Cons.prems(2) Suc by simp
      show "\<forall>j < k. \<not> sublist (kws ! j) s"
      proof (intro allI impI)
        fix j assume "j < k"
        then have "Suc j < i" using Suc by simp
        with Cons.prems(3) have "\<not> sublist ((kw # kws) ! Suc j) s" by blast
        then show "\<not> sublist (kws ! j) s" by simp
      qed
    qed
    ultimately show ?thesis using Suc by simp
  qed
qed

lemma push_all_append:
  "push_all clk (xs @ ys) st = push_all clk ys (push_all clk xs st)"
  by (induction xs arbitrary: st) simp_all

lemma emit_push_all:
  "emit clk r dev st = push_all clk (map (\<lambda>c. (c, Some dev)) (opt_list r)) st"
  by (cases r) (simp_all add: emit_def opt_list_def)

lemma analyze_device_push_all:
  "analyze_device clk dev st = push_all clk (map (\<lambda>c. (c, Some dev)) (detect dev)) st"
  by (simp add: analyze_device_def Let_def detect_def emit_push_all push_all_append)

lemma analyze_device_cores:
  assumes "length (alerts st) \<le> MAX_ALERTS"
  shows "map core (alerts (analyze_device clk dev st)) =
         take MAX_ALERTS (rev (detect dev) @ map core (alerts st))"
  using push_all_cores [OF assms, of clk "map (\<lambda>c. (c, Some dev)) (detect dev)"]
  by (simp add: analyze_device_push_all comp_def)

lemma keyword_alert_None:
  "keyword_alert dev = None \<longleftrightarrow> (\<forall>kw \<in> set DRONE_KEYWORDS. \<not> sublist kw (combined dev))"
  by (simp add: keyword_alert_def first_keyword_None [symmetric] split: option.splits)

lemma keyword_alert_type:
  "keyword_alert dev = Some c \<Longrightarrow> fst c = ''drone''"
  by (auto simp: keyword_alert_def split: option.splits)

lemma uav_alert_type:
  "uav_alert dev = Some c \<Longrightarrow> fst c = ''drone''"
  by (auto simp: uav_alert_def split: if_splits)

lemma sublist_in_tail: "sublist kw (pre @ kw @ post)"
  by (auto simp: sublist_def)

lemma prefix_without_sep:
  assumes "c \<notin> set xs" and "prefix xs (as @ c # bs)"
  shows "prefix xs as"
proof -
  from assms(2) consider "prefix xs as" | us where "xs = as @ us" "prefix us (c # bs)"
    by (auto simp: prefix_append)
  then show ?thesis
  proof cases
    case 1
    then show ?thesis .
  next
    case 2
    with assms(1) have "us = []"
      by (cases us) auto
    with 2 show ?thesis by simp
  qed
qed

lemma sublist_split_sep:
  assumes "c \<notin> set xs"
  shows "sublist xs (as @ c # bs) \<longleftrightarrow> sublist xs as \<or> sublist xs bs"
proof
  assume "sublist xs (as @ c # bs)"
  then show "sublist xs as \<or> sublist xs bs"
  proof (induction as)
    case Nil
    then have "prefix xs (c # bs) \<or> sublist xs bs"
      by (simp add: sublist_Cons_right)
    moreover have "sublist xs bs" if "prefix xs (c # bs)"
    proof -
      from that assms have "prefix xs []"
        using prefix_without_sep [of c xs "[]" bs] by simp
      then show ?thesis by simp
    qed
    ultimately show ?case by blast
  next
    case (Cons a as)
    then have "prefix xs ((a # as) @ c # bs) \<or> sublist xs (as @ c # bs)"
      by (simp add: sublist_Cons_right)
    then show ?case
    proof
      assume "prefix xs ((a # as) @ c # bs)"
      with assms have "prefix xs (a # as)"
        by (rule prefix_without_sep)
      then show ?thesis
        by (simp add: prefix_imp_sublist)
    next
      assume "sublist xs (as @ c # bs)"
      with Cons.IH have "sublist xs as \<or> sublist xs bs" .
      then show ?thesis
        by (auto simp: sublist_Cons_right)
    qed
  qed
next
  assume "sublist xs as \<or> sublist xs bs"
  then show "sublist xs (as @ c # bs)"
    by (auto simp: sublist_append sublist_Cons_right)
qed

lemma lower_append: "lower (a @ b) = lower a @ lower b"
  by (simp add: lower_def)

lemma lower_space: "py_lower_char (CHR '' '') = CHR '' ''"
  by code_simp

lemma combined_parts:
  "combined dev = lower (dev_ssid_map dev) @ CHR '' '' # lower (dev_manuf dev)"
  by (simp add: combined_def lower_def lower_space)

lemma keywords_no_space: "\<forall>kw \<in> set DRONE_KEYWORDS. CHR '' '' \<notin> set kw"
  by (simp add: DRONE_KEYWORDS_def)

lemma of_char_lower:
  "(of_char (py_lower_char c) :: nat) =
     (if (65 \<le> (of_char c :: nat) \<and> (of_char c :: nat) \<le> 90) \<or>
         (192 \<le> (of_char c :: nat) \<and> (of_char c :: nat) \<le> 214) \<or>
         (216 \<le> (of_char c :: nat) \<and> (of_char c :: nat) \<le> 222)
      then of_char c + 32 else of_char c)"
  by (auto simp: py_lower_char_def Let_def)

text \<open>
  C3 (as amended). The keyword rule works on the lowercased name, a space, and the
  lowercased manufacturer: lowercasing keeps the length and maps each capital letter
  to its small letter, leaving every other character as it is. A keyword of the list
  occurs in that text exactly when it occurs in the lowercased name or in the
  lowercased manufacturer, never across the two. When no keyword occurs, the rule makes
  no call. When the keyword at position \<open>i\<close> of the list occurs and no earlier keyword
  does, the rule makes one call, of type \<open>drone\<close> and severity \<open>critical\<close>, whose body
  ends with the matched keyword in quotes. The rule never makes more than one call, and
  the calls of the three rules are what the analysis of the device appends to the
  store.
\<close>

theorem keyword_rule_space_joined:
  "combined dev = lower (dev_ssid_map dev) @ '' '' @ lower (dev_manuf dev) \<and>
   length (lower s) = length s \<and>
   (\<forall>i < length s.
      (of_char (lower s ! i) :: nat) =
        (if (65 \<le> (of_char (s ! i) :: nat) \<and> (of_char (s ! i) :: nat) \<le> 90) \<or>
            (192 \<le> (of_char (s ! i) :: nat) \<and> (of_char (s ! i) :: nat) \<le> 214) \<or>
            (216 \<le> (of_char (s ! i) :: nat) \<and> (of_char (s ! i) :: nat) \<le> 222)
         then of_char (s ! i) + 32 else of_char (s ! i))) \<and>
   (\<forall>kw \<in> set DRONE_KEYWORDS.
      sublist kw (combined dev) \<longleftrightarrow>
        sublist kw (lower (dev_ssid_map dev)) \<or> sublist kw (lower (dev_manuf dev))) \<and>
   ((\<forall>kw \<in> set DRONE_KEYWORDS. \<not> sublist kw (combined dev)) \<longrightarrow> keyword_alert dev = None) \<and>
   (\<forall>i < length DRONE_KEYWORDS.
      sublist (DRONE_KEYWORDS ! i) (combined dev) \<and>
      (\<forall>j < i. \<not> sublist (DRONE_KEYWORDS ! j) (combined dev)) \<longrightarrow>
      (\<exists>title body.
         keyword_alert dev = Some (''drone'', ''critical'', title, body) \<and>
         suffix (''Keyword matched: '' @ [CHR 0x27] @ DRONE_KEYWORDS ! i @ [CHR 0x27]) body \<and>
         sublist (DRONE_KEYWORDS ! i) body)) \<and>
   length (opt_list (keyword_alert dev)) \<le> 1 \<and>
   (length (alerts st) \<le> MAX_ALERTS \<longrightarrow>
      map core (alerts (analyze_device clk dev st)) =
        take MAX_ALERTS
          (rev (opt_list (keyword_alert dev) @ opt_list (uav_alert dev) @
                opt_list (signal_alert dev)) @ map core (alerts st)))"
proof -
  have parts: "combined dev = lower (dev_ssid_map dev) @ '' '' @ lower (dev_manuf dev)"
    by (simp add: combined_parts)
  have len: "length (lower s) = length s"
    by (simp add: lower_def)
  have pointwise: "\<forall>i < length s.
      (of_char (lower s ! i) :: nat) =
        (if (65 \<le> (of_char (s ! i) :: nat) \<and> (of_char (s ! i) :: nat) \<le> 90) \<or>
            (192 \<le> (of_char (s ! i) :: nat) \<and> (of_char (s ! i) :: nat) \<le> 214) \<or>
            (216 \<le> (of_char (s ! i) :: nat) \<and> (of_char (s ! i) :: nat) \<le> 222)
         then of_char (s ! i) + 32 else of_char (s ! i))"
    by (simp add: lower_def of_char_lower)
  have split: "\<forall>kw \<in> set DRONE_KEYWORDS.
      sublist kw (combined dev) \<longleftrightarrow>
        sublist kw (lower (dev_ssid_map dev)) \<or> sublist kw (lower (dev_manuf dev))"
  proof
    fix kw assume "kw \<in> set DRONE_KEYWORDS"
    then have "CHR '' '' \<notin> set kw"
      using keywords_no_space by blast
    then show "sublist kw (combined dev) \<longleftrightarrow>
        sublist kw (lower (dev_ssid_map dev)) \<or> sublist kw (lower (dev_manuf dev))"
      unfolding combined_parts by (rule sublist_split_sep)
  qed
  have miss: "(\<forall>kw \<in> set DRONE_KEYWORDS. \<not> sublist kw (combined dev)) \<longrightarrow> keyword_alert dev = None"
    by (simp add: keyword_alert_None)
  have hit: "\<forall>i < length DRONE_KEYWORDS.
      sublist (DRONE_KEYWORDS ! i) (combined dev) \<and>
      (\<forall>j < i. \<not> sublist (DRONE_KEYWORDS ! j) (combined dev)) \<longrightarrow>
      (\<exists>title body.
         keyword_alert dev = Some (''drone'', ''critical'', title, body) \<and>
         suffix (''Keyword matched: '' @ [CHR 0x27] @ DRONE_KEYWORDS ! i @ [CHR 0x27]) body \<and>
         sublist (DRONE_KEYWORDS ! i) body)"
  proof (intro allI impI)
    fix i
    assume i: "i < length DRONE_KEYWORDS"
      and hit: "sublist (DRONE_KEYWORDS ! i) (combined dev) \<and>
        (\<forall>j < i. \<not> sublist (DRONE_KEYWORDS ! j) (combined dev))"
    let ?kw = "DRONE_KEYWORDS ! i"
    let ?pre = "''MAC: '' @ dev_mac dev @ '' | PHY: '' @ dev_phy dev @ '' | Manuf: '' @
                  dev_manuf dev @ '' | Signal: '' @ py_str_int (dev_last_signal dev) @ '' dBm | ''"
    let ?body = "?pre @ ''Keyword matched: '' @ [CHR 0x27] @ ?kw @ [CHR 0x27]"
    have fk: "first_keyword DRONE_KEYWORDS (combined dev) = Some ?kw"
      using i hit by (intro first_keyword_nth) simp_all
    have ka: "keyword_alert dev =
          Some (''drone'', ''critical'',
                icon_drone @ '' Drone detected: '' @ py_or (dev_ssid_map dev) (dev_mac dev), ?body)"
      by (simp add: keyword_alert_def fk)
    have suf: "suffix (''Keyword matched: '' @ [CHR 0x27] @ ?kw @ [CHR 0x27]) ?body"
      by (rule suffix_appendI) simp
    have "?body = (?pre @ ''Keyword matched: '' @ [CHR 0x27]) @ ?kw @ [CHR 0x27]"
      by simp
    then have sub: "sublist ?kw ?body"
      by (metis sublist_in_tail)
    show "\<exists>title body.
           keyword_alert dev = Some (''drone'', ''critical'', title, body) \<and>
           suffix (''Keyword matched: '' @ [CHR 0x27] @ ?kw @ [CHR 0x27]) body \<and>
           sublist ?kw body"
      using ka suf sub by blast
  qed
  have one: "length (opt_list (keyword_alert dev)) \<le> 1"
    by (simp add: opt_list_def split: option.splits)
  have store: "length (alerts st) \<le> MAX_ALERTS \<longrightarrow>
      map core (alerts (analyze_device clk dev st)) =
        take MAX_ALERTS
          (rev (opt_list (keyword_alert dev) @ opt_list (uav_alert dev) @
                opt_list (signal_alert dev)) @ map core (alerts st))"
    using analyze_device_cores [of st clk dev] by (simp add: detect_def)
  show ?thesis
    by (rule conjI [OF parts conjI [OF len conjI [OF pointwise conjI [OF split
          conjI [OF miss conjI [OF hit conjI [OF one store]]]]]]])
qed

theorem keyword_rule_space_joined_witness:
  "(\<exists>title body.
      keyword_alert mavic = Some (''drone'', ''critical'', title, body) \<and>
      suffix (''Keyword matched: '' @ [CHR 0x27] @ ''dji'' @ [CHR 0x27]) body) \<and>
   combined mavic = ''dji-mavic-3-pro dji technology'' \<and>
   length (lower ''DJI Technology'') = 14 \<and>
   sublist ''mavic'' (combined mavic) \<and>
   keyword_alert mavic =
     Some (''drone'', ''critical'', icon_drone @ '' Drone detected: DJI-Mavic-3-Pro'',
           ''MAC: 60:60:1F:AA:BB:CC | PHY: IEEE802.11 | Manuf: DJI Technology | Signal: -38 dBm | Keyword matched: '' @
           [CHR 0x27] @ ''dji'' @ [CHR 0x27])"
proof -
  note claim = keyword_rule_space_joined [of mavic "''DJI Technology''" initial_state frozen_clock]
  have i: "0 < length DRONE_KEYWORDS" and k: "DRONE_KEYWORDS ! 0 = ''dji''"
    by (simp_all add: DRONE_KEYWORDS_def)
  have c: "combined mavic = ''dji-mavic-3-pro dji technology''"
    by code_simp
  have s: "sublist ''dji'' (combined mavic)"
    by code_simp
  have hit: "sublist (DRONE_KEYWORDS ! 0) (combined mavic) \<and>
      (\<forall>j < 0. \<not> sublist (DRONE_KEYWORDS ! j) (combined mavic))"
    using s by (simp add: k)
  have all: "\<forall>i < length DRONE_KEYWORDS.
      sublist (DRONE_KEYWORDS ! i) (combined mavic) \<and>
      (\<forall>j < i. \<not> sublist (DRONE_KEYWORDS ! j) (combined mavic)) \<longrightarrow>
      (\<exists>title body.
         keyword_alert mavic = Some (''drone'', ''critical'', title, body) \<and>
         suffix (''Keyword matched: '' @ [CHR 0x27] @ DRONE_KEYWORDS ! i @ [CHR 0x27]) body \<and>
         sublist (DRONE_KEYWORDS ! i) body)"
    using claim by (elim conjE)
  have l: "length (lower ''DJI Technology'') = length ''DJI Technology''"
    using claim by (elim conjE)
  from all i hit have "\<exists>title body.
         keyword_alert mavic = Some (''drone'', ''critical'', title, body) \<and>
         suffix (''Keyword matched: '' @ [CHR 0x27] @ DRONE_KEYWORDS ! 0 @ [CHR 0x27]) body \<and>
         sublist (DRONE_KEYWORDS ! 0) body"
    by blast
  then have "\<exists>title body.
      keyword_alert mavic = Some (''drone'', ''critical'', title, body) \<and>
      suffix (''Keyword matched: '' @ [CHR 0x27] @ ''dji'' @ [CHR 0x27]) body"
    unfolding k by blast
  moreover have "sublist ''mavic'' (combined mavic)"
    by code_simp
  moreover have "keyword_alert mavic =
     Some (''drone'', ''critical'', icon_drone @ '' Drone detected: DJI-Mavic-3-Pro'',
           ''MAC: 60:60:1F:AA:BB:CC | PHY: IEEE802.11 | Manuf: DJI Technology | Signal: -38 dBm | Keyword matched: '' @
           [CHR 0x27] @ ''dji'' @ [CHR 0x27])"
    by code_simp
  moreover have "length (lower ''DJI Technology'') = 14"
    using l by simp
  ultimately show ?thesis
    using c by blast
qed

text \<open>
  C3 (as stated) fails: for the name \<open>Guest-UA\<close> and the manufacturer \<open>Vantiva\<close> the
  keyword \<open>uav\<close> occurs in the lowercased concatenation of the two, but the rule puts a
  space between them, finds no keyword and makes no call.
\<close>

theorem keyword_rule_plain_concat_counterexample:
  "''uav'' \<in> set DRONE_KEYWORDS \<and>
   combined_plain guest_ap = ''guest-uavantiva'' \<and>
   sublist ''uav'' (combined_plain guest_ap) \<and>
   combined guest_ap = ''guest-ua vantiva'' \<and>
   keyword_alert guest_ap = None \<and>
   detect guest_ap = []"
  by code_simp

lemma dev_last_signal_present:
  "base_signal dev = Some sg \<Longrightarrow> last_signal sg = Some v \<Longrightarrow> dev_last_signal dev = v"
  by (simp add: dev_last_signal_def get_or_def)

lemma dev_last_signal_absent:
  "(case base_signal dev of None \<Rightarrow> True | Some sg \<Rightarrow> last_signal sg = None) \<Longrightarrow>
   dev_last_signal dev = - 100"
  by (simp add: dev_last_signal_def get_or_def split: option.splits)

lemma filter_signal_drone_rules:
  "filter (\<lambda>c. fst c = ''signal'') (opt_list (keyword_alert dev) @ opt_list (uav_alert dev)) = []"
proof -
  have "filter (\<lambda>c. fst c = ''signal'') (opt_list (keyword_alert dev)) = []"
    by (cases "keyword_alert dev") (simp_all add: opt_list_def keyword_alert_type)
  moreover have "filter (\<lambda>c. fst c = ''signal'') (opt_list (uav_alert dev)) = []"
    by (cases "uav_alert dev") (simp_all add: opt_list_def uav_alert_type)
  ultimately show ?thesis
    by simp
qed

text \<open>
  C4. For a device record that carries a last-signal value \<open>v\<close>, the signal rule makes
  its call exactly when \<open>- 60 < v\<close>; the calls of type \<open>signal\<close> among all the calls
  for the device are then that one call, with severity \<open>warning\<close>, and there is none
  when \<open>v \<le> - 60\<close>. The calls are what the analysis appends to the store.
\<close>

theorem signal_rule_threshold:
  assumes "base_signal dev = Some sg" and "last_signal sg = Some v"
  shows "(signal_alert dev \<noteq> None \<longleftrightarrow> - 60 < v) \<and>
         filter (\<lambda>c. fst c = ''signal'') (detect dev) =
           (if - 60 < v
            then [(''signal'', ''warning'',
                   icon_signal @ '' Strong signal: '' @ py_or (dev_ssid_map dev) (dev_mac dev),
                   ''MAC: '' @ dev_mac dev @ '' | Signal: '' @ py_str_int v @ '' dBm | PHY: '' @
                   dev_phy dev)]
            else []) \<and>
         (length (alerts st) \<le> MAX_ALERTS \<longrightarrow>
            map core (alerts (analyze_device clk dev st)) =
              take MAX_ALERTS (rev (detect dev) @ map core (alerts st)))"
proof -
  have v: "dev_last_signal dev = v"
    using assms by (rule dev_last_signal_present)
  have rule: "signal_alert dev =
      (if - 60 < v
       then Some (''signal'', ''warning'',
              icon_signal @ '' Strong signal: '' @ py_or (dev_ssid_map dev) (dev_mac dev),
              ''MAC: '' @ dev_mac dev @ '' | Signal: '' @ py_str_int v @ '' dBm | PHY: '' @
              dev_phy dev)
       else None)"
    by (simp add: signal_alert_def v INTERESTING_SIGNAL_def)
  have "filter (\<lambda>c. fst c = ''signal'') (detect dev) =
        filter (\<lambda>c. fst c = ''signal'') (opt_list (keyword_alert dev) @ opt_list (uav_alert dev)) @
        filter (\<lambda>c. fst c = ''signal'') (opt_list (signal_alert dev))"
    by (simp add: detect_def)
  also have "\<dots> = filter (\<lambda>c. fst c = ''signal'') (opt_list (signal_alert dev))"
    by (simp only: filter_signal_drone_rules append_Nil)
  finally have flt: "filter (\<lambda>c. fst c = ''signal'') (detect dev) =
        filter (\<lambda>c. fst c = ''signal'') (opt_list (signal_alert dev))" .
  show ?thesis
    using analyze_device_cores [of st clk dev]
    by (simp add: flt rule opt_list_def)
qed

theorem signal_rule_threshold_witness:
  "filter (\<lambda>c. fst c = ''signal'') (detect mavic) =
     [(''signal'', ''warning'', icon_signal @ '' Strong signal: DJI-Mavic-3-Pro'',
       ''MAC: 60:60:1F:AA:BB:CC | Signal: -38 dBm | PHY: IEEE802.11'')] \<and>
   filter (\<lambda>c. fst c = ''signal'')
     (detect (mavic\<lparr>base_signal := Some \<lparr>last_signal = Some (- 60)\<rparr>\<rparr>)) = []"
proof -
  have a: "base_signal mavic = Some \<lparr>last_signal = Some (- 38)\<rparr>"
    by (simp add: mavic_def)
  have b: "last_signal \<lparr>last_signal = Some (- 38)\<rparr> = Some (- 38)"
    by simp
  have c: "base_signal (mavic\<lparr>base_signal := Some \<lparr>last_signal = Some (- 60)\<rparr>\<rparr>) =
           Some \<lparr>last_signal = Some (- 60)\<rparr>"
    by simp
  have d: "last_signal \<lparr>last_signal = Some (- 60)\<rparr> = Some (- 60)"
    by simp
  have t: "icon_signal @ '' Strong signal: '' @ py_or (dev_ssid_map mavic) (dev_mac mavic) =
           icon_signal @ '' Strong signal: DJI-Mavic-3-Pro''"
    and m: "''MAC: '' @ dev_mac mavic @ '' | Signal: '' @ py_str_int (- 38) @ '' dBm | PHY: '' @
            dev_phy mavic = ''MAC: 60:60:1F:AA:BB:CC | Signal: -38 dBm | PHY: IEEE802.11''"
    by code_simp+
  show ?thesis
    using signal_rule_threshold [OF a b, of initial_state frozen_clock]
      signal_rule_threshold [OF c d, of initial_state frozen_clock] t m
    by simp
qed

text \<open>
  C10. A device record without a signal dictionary, or whose signal dictionary has no
  last-signal value, is analysed as the same record with a last signal of \<open>- 100\<close>
  would be: the signal read is \<open>- 100\<close>, the keyword rule and the UAV rule fire under
  their own conditions as for any record, and no call of type \<open>signal\<close> is made.
\<close>

theorem absent_signal_default:
  assumes "case base_signal dev of None \<Rightarrow> True | Some sg \<Rightarrow> last_signal sg = None"
  shows "dev_last_signal dev = - 100 \<and>
         signal_alert dev = None \<and>
         detect dev = opt_list (keyword_alert dev) @ opt_list (uav_alert dev) \<and>
         detect dev = detect (dev\<lparr>base_signal := Some \<lparr>last_signal = Some (- 100)\<rparr>\<rparr>) \<and>
         (keyword_alert dev \<noteq> None \<longleftrightarrow> (\<exists>kw \<in> set DRONE_KEYWORDS. sublist kw (combined dev))) \<and>
         (uav_alert dev \<noteq> None \<longleftrightarrow> dev_phy dev = ''UAV'') \<and>
         filter (\<lambda>c. fst c = ''signal'') (detect dev) = [] \<and>
         (length (alerts st) \<le> MAX_ALERTS \<longrightarrow>
            map core (alerts (analyze_device clk dev st)) =
              take MAX_ALERTS (rev (detect dev) @ map core (alerts st)))"
proof -
  let ?dev' = "dev\<lparr>base_signal := Some \<lparr>last_signal = Some (- 100)\<rparr>\<rparr>"
  have v: "dev_last_signal dev = - 100"
    using assms by (rule dev_last_signal_absent)
  have v': "dev_last_signal ?dev' = - 100"
    by (simp add: dev_last_signal_def get_or_def)
  have same: "dev_ssid_map ?dev' = dev_ssid_map dev" "dev_mac ?dev' = dev_mac dev"
    "dev_phy ?dev' = dev_phy dev" "dev_manuf ?dev' = dev_manuf dev" "combined ?dev' = combined dev"
    by (simp_all add: dev_ssid_map_def dev_mac_def dev_phy_def dev_manuf_def combined_def)
  have none: "signal_alert dev = None"
    by (simp add: signal_alert_def v INTERESTING_SIGNAL_def)
  have k: "keyword_alert ?dev' = keyword_alert dev"
    by (simp add: keyword_alert_def same v v' split: option.splits)
  have u: "uav_alert ?dev' = uav_alert dev"
    by (simp add: uav_alert_def same v v')
  have s: "signal_alert ?dev' = signal_alert dev"
    by (simp add: signal_alert_def same v v')
  have det: "detect dev = opt_list (keyword_alert dev) @ opt_list (uav_alert dev)"
    by (simp add: detect_def none opt_list_def)
  have kw: "keyword_alert dev \<noteq> None \<longleftrightarrow> (\<exists>kw \<in> set DRONE_KEYWORDS. sublist kw (combined dev))"
    by (simp add: keyword_alert_None)
  have uav: "uav_alert dev \<noteq> None \<longleftrightarrow> dev_phy dev = ''UAV''"
    by (simp add: uav_alert_def)
  have flt: "filter (\<lambda>c. fst c = ''signal'') (detect dev) = []"
    by (simp only: det filter_signal_drone_rules)
  have store: "length (alerts st) \<le> MAX_ALERTS \<longrightarrow>
            map core (alerts (analyze_device clk dev st)) =
              take MAX_ALERTS (rev (detect dev) @ map core (alerts st))"
    using analyze_device_cores [of st clk dev] by blast
  have eq: "detect dev = detect ?dev'"
    by (simp add: detect_def k u s)
  show ?thesis
    by (rule conjI [OF v conjI [OF none conjI [OF det conjI [OF eq conjI [OF kw
          conjI [OF uav conjI [OF flt store]]]]]]])
qed

theorem absent_signal_default_witness:
  "detect (mavic\<lparr>base_signal := None\<rparr>) =
     [(''drone'', ''critical'', icon_drone @ '' Drone detected: DJI-Mavic-3-Pro'',
       ''MAC: 60:60:1F:AA:BB:CC | PHY: IEEE802.11 | Manuf: DJI Technology | Signal: -100 dBm | Keyword matched: '' @
       [CHR 0x27] @ ''dji'' @ [CHR 0x27])] \<and>
   dev_last_signal (mavic\<lparr>base_signal := Some \<lparr>last_signal = None\<rparr>\<rparr>) = - 100 \<and>
   signal_alert (mavic\<lparr>base_signal := None\<rparr>) = None"
proof -
  have a: "case base_signal (mavic\<lparr>base_signal := None\<rparr>) of
             None \<Rightarrow> True | Some sg \<Rightarrow> last_signal sg = None"
    by simp
  have b: "case base_signal (mavic\<lparr>base_signal := Some \<lparr>last_signal = None\<rparr>\<rparr>) of
             None \<Rightarrow> True | Some sg \<Rightarrow> last_signal sg = None"
    by simp
  have d: "detect (mavic\<lparr>base_signal := None\<rparr>) =
     [(''drone'', ''critical'', icon_drone @ '' Drone detected: DJI-Mavic-3-Pro'',
       ''MAC: 60:60:1F:AA:BB:CC | PHY: IEEE802.11 | Manuf: DJI Technology | Signal: -100 dBm | Keyword matched: '' @
       [CHR 0x27] @ ''dji'' @ [CHR 0x27])]"
    by code_simp
  show ?thesis
    using absent_signal_default [OF a, of initial_state frozen_clock]
      absent_signal_default [OF b, of initial_state frozen_clock] d
    by blast
qed

end
